theory Spec2Isabelle
  imports Complex_Main
begin

section \<open>The session bridge (session.ts)\<close>

text \<open>
  An \<open>SSHSession\<close> owns one transport channel and one renderer. Both are external
  collaborators: the model records every call the session makes on them, and every event
  the session emits, in the order the code makes them.
\<close>

subsection \<open>Numbers\<close>

text \<open>
  A dimension is a \<open>number\<close> of the language: a finite value, an infinity, or \<open>NaN\<close>.
  The finite values of the language are among the reals. \<open>a < b\<close> is false whenever
  either side is \<open>NaN\<close>, and \<open>a > b\<close> is \<open>b < a\<close>.
\<close>

datatype number = Num real | Pos_Infinity | Neg_Infinity | NaN

fun js_less :: "number \<Rightarrow> number \<Rightarrow> bool" where
  "js_less NaN b = False"
| "js_less a NaN = False"
| "js_less (Num x) (Num y) = (x < y)"
| "js_less a Neg_Infinity = False"
| "js_less Pos_Infinity b = False"
| "js_less Neg_Infinity b = True"
| "js_less (Num x) Pos_Infinity = True"

text \<open>A number within \<open>[1, 10000]\<close>.\<close>

fun in_range :: "number \<Rightarrow> bool" where
  "in_range (Num x) = (1 \<le> x \<and> x \<le> 10000)"
| "in_range n = False"

subsection \<open>The session\<close>

record pty_info =
  term_type :: string
  width :: number
  height :: number

datatype teardown = From_Cleanup | From_Close

datatype session_event =
    Stream_Exit int
  | Stream_End
  | Renderer_Stop
  | Renderer_Destroy
  | Renderer_Resize number number
  | Renderer_Inject "nat list"
  | Console_Error string
  | Emit_Resize number number
  | Emit_Close
  | Unhandled_Rejection string

text \<open>
  \<open>pending\<close> holds the teardown continuations that \<open>renderer.idle().then(..).catch(..)\<close>
  has scheduled and that have not run yet; \<open>events\<close> is the log of effects.
\<close>

record ssh_session =
  pty :: pty_info
  closed :: bool
  pending :: "teardown list"
  events :: "session_event list"

text \<open>The constructor: \<open>_pty = { ...ptyInfo }\<close>, \<open>_closed = false\<close>.\<close>

definition new_session :: "pty_info \<Rightarrow> ssh_session" where
  "new_session p = \<lparr>pty = p, closed = False, pending = [], events = []\<rparr>"

definition handleResize :: "number \<Rightarrow> number \<Rightarrow> ssh_session \<Rightarrow> ssh_session" where
  "handleResize w h s =
     (if js_less w (Num 1) \<or> js_less h (Num 1) \<or>
         js_less (Num 10000) w \<or> js_less (Num 10000) h then s
      else s\<lparr>pty := (pty s)\<lparr>width := w, height := h\<rparr>,
             events := events s @ [Renderer_Resize w h, Emit_Resize w h]\<rparr>)"

text \<open>\<open>_cleanup()\<close>: the teardown entered from the channel's error and close events.\<close>

definition cleanup :: "ssh_session \<Rightarrow> ssh_session" where
  "cleanup s =
     (if closed s then s
      else s\<lparr>closed := True,
             events := events s @ [Renderer_Stop],
             pending := pending s @ [From_Cleanup]\<rparr>)"

text \<open>\<open>close(exitCode)\<close>: the channel is closed first, then the same teardown is scheduled.\<close>

definition close :: "int \<Rightarrow> ssh_session \<Rightarrow> ssh_session" where
  "close exitCode s =
     (if closed s then s
      else s\<lparr>closed := True,
             events := events s @ [Stream_Exit exitCode, Stream_End, Renderer_Stop],
             pending := pending s @ [From_Close]\<rparr>)"

text \<open>
  A scheduled teardown is \<open>idle().then(() => { destroy(); emit("close") }).catch((err) =>
  { console.error(..); emit("close") })\<close>. How the renderer answers it: \<open>idle()\<close>
  resolves and \<open>destroy()\<close> returns, \<open>idle()\<close> rejects, or \<open>destroy()\<close> throws.
  \<open>emit\<close> calls the listeners of the application; what they do is given by the message
  of the exception a listener of \<open>close\<close> throws, if one throws (it then throws at every
  emit). An exception inside \<open>then\<close>, also that of a listener, is handled by \<open>catch\<close>;
  an exception inside \<open>catch\<close> is handled by nothing.
\<close>

datatype renderer_answer = Settles | Idle_Rejects string | Destroy_Throws string

definition teardown_label :: "teardown \<Rightarrow> string" where
  "teardown_label t =
     (case t of From_Cleanup \<Rightarrow> ''[SSH] Error during session cleanup: ''
              | From_Close \<Rightarrow> ''[SSH] Error during session close: '')"

definition catch_events :: "teardown \<Rightarrow> string \<Rightarrow> string option \<Rightarrow> session_event list" where
  "catch_events t m listener =
     [Console_Error (teardown_label t @ m), Emit_Close] @
     (case listener of None \<Rightarrow> [] | Some m' \<Rightarrow> [Unhandled_Rejection m'])"

definition teardown_events ::
  "teardown \<Rightarrow> renderer_answer \<Rightarrow> string option \<Rightarrow> session_event list" where
  "teardown_events t a listener =
     (case a of
        Settles \<Rightarrow>
          [Renderer_Destroy, Emit_Close] @
          (case listener of None \<Rightarrow> [] | Some m' \<Rightarrow> catch_events t m' listener)
      | Idle_Rejects m \<Rightarrow> catch_events t m listener
      | Destroy_Throws m \<Rightarrow> Renderer_Destroy # catch_events t m listener)"

text \<open>The oldest scheduled teardown runs; with nothing scheduled, nothing happens.\<close>

definition settle :: "renderer_answer \<Rightarrow> string option \<Rightarrow> ssh_session \<Rightarrow> ssh_session" where
  "settle a listener s =
     (case pending s of
        [] \<Rightarrow> s
      | t # ts \<Rightarrow> s\<lparr>pending := ts, events := events s @ teardown_events t a listener\<rparr>)"

text \<open>
  What can happen to a session after \<open>create\<close> has wired it: the application resizes or
  closes it, the channel delivers data, an error or its close, and the renderer answers a
  pending teardown.
\<close>

datatype session_op =
    Resize number number
  | Close int
  | Stream_Data "nat list"
  | Stream_Error string
  | Stream_Close
  | Renderer_Answer renderer_answer "string option"

fun session_step :: "session_op \<Rightarrow> ssh_session \<Rightarrow> ssh_session" where
  "session_step (Resize w h) s = handleResize w h s"
| "session_step (Close c) s = close c s"
| "session_step (Stream_Data d) s =
     (if \<not> closed s then s\<lparr>events := events s @ [Renderer_Inject d]\<rparr> else s)"
| "session_step (Stream_Error m) s =
     cleanup (s\<lparr>events := events s @ [Console_Error (''[SSH] Stream error: '' @ m)]\<rparr>)"
| "session_step Stream_Close s = cleanup s"
| "session_step (Renderer_Answer a listener) s = settle a listener s"

fun run_session :: "session_op list \<Rightarrow> ssh_session \<Rightarrow> ssh_session" where
  "run_session [] s = s"
| "run_session (x # xs) s = run_session xs (session_step x s)"

definition close_events :: "ssh_session \<Rightarrow> nat" where
  "close_events s = length (filter (\<lambda>e. e = Emit_Close) (events s))"

subsection \<open>The flush handler\<close>

text \<open>
  \<open>onFlush(buffer, done)\<close> is built inside \<open>create\<close>, before the session object exists:
  \<open>session?._closed\<close> reads the flag of a session that may still be \<open>null\<close>.
  The channel's \<open>write\<close> belongs to the transport. What it does with one call is given by
  the completion callbacks it invokes (each with an optional error message) and by the
  exception it throws synchronously, if any.
\<close>

record write_behaviour =
  callbacks :: "string option list"
  thrown :: "string option"

datatype flush_event =
    Done
  | Channel_Write "nat list"
  | Flush_Error string

definition write_completed :: "string option \<Rightarrow> flush_event list" where
  "write_completed err =
     (case err of
        Some m \<Rightarrow> [Flush_Error (''[SSH] Stream write error: '' @ m), Done]
      | None \<Rightarrow> [Done])"

definition onFlush ::
  "ssh_session option \<Rightarrow> bool \<Rightarrow> write_behaviour \<Rightarrow> nat list \<Rightarrow> flush_event list" where
  "onFlush session writable wb buffer =
     (if (case session of None \<Rightarrow> False | Some s \<Rightarrow> closed s) \<or> \<not> writable then [Done]
      else Channel_Write buffer # concat (map write_completed (callbacks wb)) @
           (case thrown wb of
              None \<Rightarrow> []
            | Some m \<Rightarrow> [Flush_Error (''[SSH] Stream write threw: '' @ m), Done]))"

definition done_calls :: "flush_event list \<Rightarrow> nat" where
  "done_calls es = length (filter (\<lambda>e. e = Done) es)"

text \<open>
  The contract of a writable stream: a call to \<open>write\<close> either throws before it accepts
  the chunk, or accepts it and reports completion through the callback once.
\<close>

definition write_contract :: "write_behaviour \<Rightarrow> bool" where
  "write_contract wb =
     (case thrown wb of
        None \<Rightarrow> length (callbacks wb) = 1
      | Some m \<Rightarrow> callbacks wb = [])"

subsection \<open>The teardown invariant\<close>

text \<open>
  Every \<open>close\<close> event that was emitted or is still scheduled belongs to the one
  transition into the closed state.
\<close>

definition teardown_inv :: "ssh_session \<Rightarrow> bool" where
  "teardown_inv s = (close_events s + length (pending s) = (if closed s then 1 else 0))"

text \<open>An operation during which no listener of \<open>close\<close> throws.\<close>

fun listeners_return :: "session_op \<Rightarrow> bool" where
  "listeners_return (Renderer_Answer a listener) = (listener = None)"
| "listeners_return x = True"

text \<open>A pty for the examples.\<close>

definition xterm :: pty_info where
  "xterm = \<lparr>term_type = ''xterm'', width = Num 80, height = Num 24\<rparr>"

section \<open>The middleware pipeline (middleware/index.ts)\<close>

text \<open>
  A middleware is a function of a context and a continuation \<open>next\<close>. The context of one
  dispatch, the variables that \<open>handleAuth\<close> closes over, and the calls made on the
  transport and on the callbacks of the configuration form the \<open>world\<close> below. The
  \<open>trace\<close> lists those calls in the order they are made.
\<close>

datatype phase = Phase_Auth | Phase_Session

datatype error = Error string

text \<open>
  \<open>ctx.accept\<close> and \<open>ctx.reject\<close> hold closures. \<open>handleAuth\<close> installs the first
  ones; \<open>logging\<close> replaces each by a closure that notes the result in the \<open>authResult\<close>
  variable of its activation and then calls the closure it found. The activation is named
  by its position in the chain.
\<close>

datatype accept_fn = Auth_Accept | Logging_Accept nat accept_fn

datatype reject_fn = Auth_Reject | Logging_Reject nat reject_fn

datatype event =
    Emitted string
  | Transport_Accept
  | Transport_Reject "string list option"
  | Auth_Attempt bool
  | Connect
  | Disconnect_Listener
  | Error_Event error
  | Uncaught error

record world =
  phase :: phase
  username :: string
  clientKey :: "(string \<times> string) option"
  ctx_accept :: "accept_fn option"
  ctx_reject :: "reject_fn option"
  accepted :: bool
  rejected :: bool
  authResult :: "nat \<Rightarrow> bool option"
  authenticatedUser :: "(string \<times> string option) option"
  trace :: "event list"

text \<open>
  Calling a closure. The closure of \<open>handleAuth\<close> sets its flag and calls
  the transport's \<open>accept\<close>, which \<open>handleConnection\<close> has wrapped to store the user
  first. The user's key algorithm is that of the client key, present exactly when the
  method is \<open>publickey\<close> and a key was sent.
\<close>

fun invoke_accept :: "accept_fn \<Rightarrow> world \<Rightarrow> world" where
  "invoke_accept Auth_Accept w =
     w\<lparr>accepted := True,
       authenticatedUser := Some (username w, map_option fst (clientKey w)),
       trace := trace w @ [Transport_Accept]\<rparr>"
| "invoke_accept (Logging_Accept k original) w =
     invoke_accept original (w\<lparr>authResult := (authResult w)(k := Some True)\<rparr>)"

fun invoke_reject :: "reject_fn \<Rightarrow> string list option \<Rightarrow> world \<Rightarrow> world" where
  "invoke_reject Auth_Reject allowedMethods w =
     w\<lparr>rejected := True, trace := trace w @ [Transport_Reject allowedMethods]\<rparr>"
| "invoke_reject (Logging_Reject k original) allowedMethods w =
     invoke_reject original allowedMethods (w\<lparr>authResult := (authResult w)(k := Some False)\<rparr>)"

definition emit :: "string \<Rightarrow> world \<Rightarrow> world" where
  "emit l w = w\<lparr>trace := trace w @ [Emitted l]\<rparr>"

definition emit_all :: "string list \<Rightarrow> world \<Rightarrow> world" where
  "emit_all ls w = w\<lparr>trace := trace w @ map Emitted ls\<rparr>"

subsection \<open>The state of one dispatch\<close>

text \<open>
  \<open>index\<close> is the variable of that name in the closure \<open>compose\<close> returns; no middleware
  can reach it. \<open>history\<close> is not program state: it notes, in order, each call of a
  \<open>next\<close> continuation (with the position of the middleware that owns it), the call of the
  terminal continuation, each exception a middleware throws, and each call a middleware
  makes of the context's \<open>accept\<close> or \<open>reject\<close>. Nothing reads it.
  An exception ends the dispatch with \<open>Inl\<close>, carrying the state at that moment, because
  the calls made before it have happened.
\<close>

datatype hevent =
    Next_Called nat
  | Terminal_Called
  | Threw nat error
  | Accept_Called
  | Reject_Called "string list option"

record dstate =
  index :: int
  history :: "hevent list"
  world :: world

type_synonym outcome = "(error \<times> dstate) + dstate"

type_synonym terminal = "world \<Rightarrow> (error \<times> world) + world"

definition on_world :: "(world \<Rightarrow> world) \<Rightarrow> dstate \<Rightarrow> dstate" where
  "on_world f st = st\<lparr>world := f (world st)\<rparr>"

definition record_event :: "hevent \<Rightarrow> dstate \<Rightarrow> dstate" where
  "record_event h st = st\<lparr>history := history st @ [h]\<rparr>"

text \<open>\<open>ctx.accept?.()\<close> and \<open>ctx.reject?.(methods)\<close>: nothing happens when the slot is empty.\<close>

definition accept_call :: "dstate \<Rightarrow> dstate" where
  "accept_call st =
     (case ctx_accept (world st) of
        None \<Rightarrow> st
      | Some f \<Rightarrow> record_event Accept_Called (on_world (invoke_accept f) st))"

definition reject_call :: "string list option \<Rightarrow> dstate \<Rightarrow> dstate" where
  "reject_call allowedMethods st =
     (case ctx_reject (world st) of
        None \<Rightarrow> st
      | Some f \<Rightarrow>
          record_event (Reject_Called allowedMethods)
            (on_world (invoke_reject f allowedMethods) st))"

subsection \<open>Middleware written by the application\<close>

text \<open>
  The body of such a middleware is a sequence of steps: a side effect that can be
  observed (the tests push a label on a list), a call of \<open>ctx.accept?.()\<close> or
  \<open>ctx.reject?.(methods)\<close>, \<open>await next()\<close>, and \<open>throw new Error(message)\<close>. As in
  every middleware of the repository and of its tests, a call of \<open>next\<close> is awaited and
  its exception is not caught, so an exception leaves the body at once. What a middleware
  does on a given context is one such sequence, so a statement about all sequences is a
  statement about all middlewares of this kind.
\<close>

datatype action =
    Emit string
  | Call_Accept
  | Call_Reject "string list option"
  | Await_Next
  | Throw string

fun run_script :: "nat \<Rightarrow> (dstate \<Rightarrow> outcome) \<Rightarrow> action list \<Rightarrow> dstate \<Rightarrow> outcome" where
  "run_script i nxt [] st = Inr st"
| "run_script i nxt (Emit l # rest) st = run_script i nxt rest (on_world (emit l) st)"
| "run_script i nxt (Call_Accept # rest) st = run_script i nxt rest (accept_call st)"
| "run_script i nxt (Call_Reject ms # rest) st = run_script i nxt rest (reject_call ms st)"
| "run_script i nxt (Await_Next # rest) st =
     (case nxt st of Inl f \<Rightarrow> Inl f | Inr st' \<Rightarrow> run_script i nxt rest st')"
| "run_script i nxt (Throw m # rest) st = Inl (Error m, record_event (Threw i (Error m)) st)"

subsection \<open>\<open>logging\<close>\<close>

text \<open>
  The options say which callbacks the configuration gives. In the auth phase the
  middleware starts with \<open>authResult = null\<close>, wraps the closures that are present, awaits
  \<open>next\<close>, and then reports the result if there is one. In the session phase it reports
  the connection, registers the disconnect listener and awaits \<open>next\<close>.
\<close>

record logging_options =
  onAuthAttempt :: bool
  onConnect :: bool
  onDisconnect :: bool

definition wrap_decisions :: "nat \<Rightarrow> world \<Rightarrow> world" where
  "wrap_decisions k w =
     w\<lparr>authResult := (authResult w)(k := None),
       ctx_accept := map_option (Logging_Accept k) (ctx_accept w),
       ctx_reject := map_option (Logging_Reject k) (ctx_reject w)\<rparr>"

definition report_attempt :: "logging_options \<Rightarrow> nat \<Rightarrow> world \<Rightarrow> world" where
  "report_attempt opts k w =
     (case authResult w k of
        Some r \<Rightarrow> if onAuthAttempt opts then w\<lparr>trace := trace w @ [Auth_Attempt r]\<rparr> else w
      | None \<Rightarrow> w)"

definition announce_connection :: "logging_options \<Rightarrow> world \<Rightarrow> world" where
  "announce_connection opts w =
     w\<lparr>trace := trace w @ (if onConnect opts then [Connect] else []) @
                          (if onDisconnect opts then [Disconnect_Listener] else [])\<rparr>"

definition logging :: "logging_options \<Rightarrow> nat \<Rightarrow> (dstate \<Rightarrow> outcome) \<Rightarrow> dstate \<Rightarrow> outcome" where
  "logging opts k nxt st =
     (case phase (world st) of
        Phase_Auth \<Rightarrow>
          (case nxt (on_world (wrap_decisions k) st) of
             Inl f \<Rightarrow> Inl f
           | Inr st' \<Rightarrow> Inr (on_world (report_attempt opts k) st'))
      | Phase_Session \<Rightarrow> nxt (on_world (announce_connection opts) st))"

subsection \<open>\<open>publicKey\<close> and \<open>devMode\<close>\<close>

text \<open>
  \<open>publicKey\<close> is given the keys it has parsed when it was built. A client key is its
  algorithm and its data in base64.
\<close>

record authorized_key =
  key_type :: string
  key :: string
  comment :: "string option"

definition matchesKey :: "string \<Rightarrow> string \<Rightarrow> authorized_key list \<Rightarrow> bool" where
  "matchesKey clientKeyType clientKeyData authorizedKeys =
     list_ex (\<lambda>ak. key_type ak = clientKeyType \<and> key ak = clientKeyData) authorizedKeys"

definition publicKey :: "authorized_key list \<Rightarrow> (dstate \<Rightarrow> outcome) \<Rightarrow> dstate \<Rightarrow> outcome" where
  "publicKey parsedAuthorizedKeys nxt st =
     (if phase (world st) \<noteq> Phase_Auth then nxt st
      else case clientKey (world st) of
             None \<Rightarrow> nxt st
           | Some (algo, data) \<Rightarrow>
               nxt (if matchesKey algo data parsedAuthorizedKeys then accept_call st
                    else reject_call (Some [''publickey'']) st))"

definition devMode :: "(dstate \<Rightarrow> outcome) \<Rightarrow> dstate \<Rightarrow> outcome" where
  "devMode nxt st =
     nxt (if phase (world st) = Phase_Auth \<and> ctx_accept (world st) \<noteq> None
          then accept_call st else st)"

subsection \<open>\<open>compose\<close>\<close>

datatype middleware =
    Logging logging_options
  | PublicKey "authorized_key list"
  | DevMode
  | Custom "action list"

fun apply_middleware :: "middleware \<Rightarrow> nat \<Rightarrow> (dstate \<Rightarrow> outcome) \<Rightarrow> dstate \<Rightarrow> outcome" where
  "apply_middleware (Logging opts) i nxt st = logging opts i nxt st"
| "apply_middleware (PublicKey keys) i nxt st = publicKey keys nxt st"
| "apply_middleware DevMode i nxt st = devMode nxt st"
| "apply_middleware (Custom script) i nxt st = run_script i nxt script st"

text \<open>\<open>await next()\<close> at the end of the chain, on the context as it is then.\<close>

definition call_terminal :: "terminal \<Rightarrow> dstate \<Rightarrow> outcome" where
  "call_terminal next st =
     (case next (world st) of
        Inl (e, w) \<Rightarrow> Inl (e, (record_event Terminal_Called st)\<lparr>world := w\<rparr>)
      | Inr w \<Rightarrow> Inr ((record_event Terminal_Called st)\<lparr>world := w\<rparr>))"

text \<open>
  \<open>dispatch(i)\<close>: the guard on \<open>index\<close>, the assignment, and then either the middleware at
  \<open>i\<close>, given the continuation \<open>() => dispatch(i + 1)\<close>, or the terminal continuation
  when \<open>middlewares[i]\<close> is undefined.
\<close>

function dispatch :: "middleware list \<Rightarrow> terminal \<Rightarrow> nat \<Rightarrow> dstate \<Rightarrow> outcome" where
  "dispatch middlewares next i st =
     (if int i \<le> index st then Inl (Error ''next() called multiple times'', st)
      else if i < length middlewares
        then apply_middleware (middlewares ! i) i
               (\<lambda>s. dispatch middlewares next (Suc i) (record_event (Next_Called i) s))
               (st\<lparr>index := int i\<rparr>)
        else call_terminal next (st\<lparr>index := int i\<rparr>))"
  by pat_completeness auto
termination
  by (relation "measure (\<lambda>(middlewares, next, i, st). length middlewares - i)") auto

declare dispatch.simps [simp del]

definition compose :: "middleware list \<Rightarrow> terminal \<Rightarrow> world \<Rightarrow> outcome" where
  "compose middlewares next w =
     dispatch middlewares next 0 \<lparr>index = - 1, history = [], world = w\<rparr>"

text \<open>
  The shape of the middlewares in the tests of \<open>compose\<close>: effects, \<open>await next()\<close>,
  effects; and their terminal continuation, which has one effect.
\<close>

definition onion :: "string list \<times> string list \<Rightarrow> middleware" where
  "onion ls = Custom (map Emit (fst ls) @ Await_Next # map Emit (snd ls))"

definition final :: "string \<Rightarrow> terminal" where
  "final l w = Inr (emit l w)"

section \<open>The connection controller (server.ts)\<close>

text \<open>
  The constructor composes the configured middleware, or, with none configured, uses a
  middleware that only calls \<open>next\<close>.
\<close>

definition server_middleware :: "middleware list \<Rightarrow> terminal \<Rightarrow> world \<Rightarrow> outcome" where
  "server_middleware middlewares next w =
     (if middlewares \<noteq> [] then compose middlewares next w
      else call_terminal next \<lparr>index = - 1, history = [], world = w\<rparr>)"

subsection \<open>Authentication\<close>

text \<open>What the transport's authentication request carries: user name, method, key.\<close>

record auth_context =
  ctx_username :: string
  ctx_method :: string
  ctx_key :: "(string \<times> string) option"

text \<open>The context \<open>handleAuth\<close> builds, with \<open>accepted = false\<close> and \<open>rejected = false\<close>.\<close>

definition auth_world :: "auth_context \<Rightarrow> world" where
  "auth_world ctx =
     \<lparr>phase = Phase_Auth,
      username = ctx_username ctx,
      clientKey = (if ctx_method ctx = ''publickey'' then ctx_key ctx else None),
      ctx_accept = Some Auth_Accept,
      ctx_reject = Some Auth_Reject,
      accepted = False,
      rejected = False,
      authResult = (\<lambda>k. None),
      authenticatedUser = None,
      trace = []\<rparr>"

text \<open>
  The terminal continuation of \<open>handleAuth\<close>: it calls the transport's own \<open>reject\<close>,
  not the one of the context.
\<close>

definition default_reject :: terminal where
  "default_reject w =
     Inr (if \<not> accepted w \<and> \<not> rejected w
          then w\<lparr>trace := trace w @ [Transport_Reject (Some [''publickey''])]\<rparr> else w)"

definition handleAuth :: "middleware list \<Rightarrow> auth_context \<Rightarrow> outcome" where
  "handleAuth middlewares ctx = server_middleware middlewares default_reject (auth_world ctx)"

text \<open>
  The server is an event emitter. \<open>emit("error", err)\<close> calls the listeners that the
  application has registered for \<open>error\<close>. With none registered, which is the state of
  a server as \<open>createSSHServer\<close> returns it, \<open>emit\<close> throws \<open>err\<close>; a listener that throws
  makes \<open>emit\<close> throw its exception. Inside the handler of a \<open>catch\<close> either exception
  ends the handler and is handled by nothing.
\<close>

datatype error_listener = No_Listener | Listener_Returns | Listener_Throws error

fun emit_error :: "error_listener \<Rightarrow> error \<Rightarrow> event list" where
  "emit_error No_Listener e = [Uncaught e]"
| "emit_error Listener_Returns e = [Error_Event e]"
| "emit_error (Listener_Throws e') e = [Error_Event e, Uncaught e']"

fun emit_returns :: "error_listener \<Rightarrow> bool" where
  "emit_returns Listener_Returns = True"
| "emit_returns l = False"

text \<open>
  The listener of the \<open>authentication\<close> event:
  \<open>handleAuth(..).catch((err) => { this.emit("error", err); ctx.reject() })\<close>.
  \<open>ctx.reject()\<close> is reached when \<open>emit\<close> returns.
\<close>

definition on_authentication :: "error_listener \<Rightarrow> middleware list \<Rightarrow> auth_context \<Rightarrow> dstate" where
  "on_authentication l middlewares ctx =
     (case handleAuth middlewares ctx of
        Inr st \<Rightarrow> st
      | Inl (e, st) \<Rightarrow>
          on_world (\<lambda>w. w\<lparr>trace := trace w @ emit_error l e @
                                 (if emit_returns l then [Transport_Reject None] else [])\<rparr>) st)"

subsection \<open>Session requests\<close>

text \<open>
  \<open>handleSession\<close> registers listeners for the pty, shell and exec requests of one
  transport session; they share the variable \<open>ptyInfo\<close>. \<open>log\<close> lists what the listeners
  do: the replies to the client, the calls on the channel, the run of the session-phase
  middleware (with its trace) and the creation of the \<open>SSHSession\<close>.
\<close>

datatype request_event =
    Pty_Accepted
  | Shell_Rejected
  | Shell_Accepted
  | Middleware_Ran "event list"
  | Session_Created pty_info
  | Server_Error error
  | Server_Uncaught error
  | Exec_Accepted
  | Exec_Log string
  | Channel_Exit int
  | Channel_End

record session_requests =
  ptyInfo :: "pty_info option"
  log :: "request_event list"

text \<open>The pty listener; \<open>accept\<close> is present when the client wants a reply.\<close>

definition on_pty :: "string option \<Rightarrow> number \<Rightarrow> number \<Rightarrow> bool \<Rightarrow> session_requests \<Rightarrow> session_requests" where
  "on_pty term_name cols rows has_accept s =
     s\<lparr>ptyInfo := Some \<lparr>term_type = (case term_name of None \<Rightarrow> ''xterm'' | Some t \<Rightarrow> t),
                        width = cols, height = rows\<rparr>,
       log := log s @ (if has_accept then [Pty_Accepted] else [])\<rparr>"

definition session_world :: "string \<Rightarrow> world" where
  "session_world user =
     \<lparr>phase = Phase_Session,
      username = user,
      clientKey = None,
      ctx_accept = None,
      ctx_reject = None,
      accepted = False,
      rejected = False,
      authResult = (\<lambda>k. None),
      authenticatedUser = None,
      trace = []\<rparr>"

text \<open>
  The session-phase run of the middleware:
  \<open>Promise.resolve(this.middleware(..)).catch((err) => { this.emit("error", err) })\<close>.
\<close>

definition session_dispatch :: "error_listener \<Rightarrow> middleware list \<Rightarrow> string \<Rightarrow> event list" where
  "session_dispatch l middlewares user =
     (case server_middleware middlewares (\<lambda>w. Inr w) (session_world user) of
        Inr st \<Rightarrow> trace (world st)
      | Inl (e, st) \<Rightarrow> trace (world st) @ emit_error l e)"

text \<open>
  The shell listener. \<open>accept()\<close> may return no channel; \<open>SSHSession.create\<close> may fail, and
  then the error is emitted and, when \<open>emit\<close> returns, the channel is closed with status 1.
\<close>

definition create_failed :: "error_listener \<Rightarrow> error \<Rightarrow> request_event list" where
  "create_failed l e =
     (case l of
        No_Listener \<Rightarrow> [Server_Uncaught e]
      | Listener_Returns \<Rightarrow> [Server_Error e, Channel_Exit 1, Channel_End]
      | Listener_Throws e' \<Rightarrow> [Server_Error e, Server_Uncaught e'])"

definition on_shell ::
  "error_listener \<Rightarrow> bool \<Rightarrow> middleware list \<Rightarrow> string \<Rightarrow> bool \<Rightarrow> bool \<Rightarrow> error option \<Rightarrow>
   session_requests \<Rightarrow> session_requests" where
  "on_shell l requirePty middlewares user has_reject stream_returned create_error s =
     (if requirePty \<and> ptyInfo s = None
        then s\<lparr>log := log s @ (if has_reject then [Shell_Rejected] else [])\<rparr>
      else if \<not> stream_returned then s\<lparr>log := log s @ [Shell_Accepted]\<rparr>
      else s\<lparr>log := log s @
             [Shell_Accepted, Middleware_Ran (session_dispatch l middlewares user)] @
             (case create_error of
                None \<Rightarrow> [Session_Created
                           (case ptyInfo s of
                              None \<Rightarrow> \<lparr>term_type = ''xterm'', width = Num 80, height = Num 24\<rparr>
                            | Some p \<Rightarrow> p)]
              | Some e \<Rightarrow> create_failed l e)\<rparr>)"

text \<open>The exec listener, with the message it writes to the console.\<close>

definition exec_message :: "string option \<Rightarrow> string" where
  "exec_message command =
     (let c = (case command of None \<Rightarrow> ''<unknown>'' | Some c \<Rightarrow> c)
      in ''[SSH] exec request not supported (command: '' @ take 50 c @
         (if 50 < length c then ''...'' else '''') @ '')'')"

definition on_exec :: "bool \<Rightarrow> string option \<Rightarrow> session_requests \<Rightarrow> session_requests" where
  "on_exec stream_returned command s =
     s\<lparr>log := log s @ Exec_Accepted #
          (if stream_returned
           then [Exec_Log (exec_message command), Channel_Exit 1, Channel_End] else [])\<rparr>"

text \<open>The entries of the log that belong to a shell: its acceptance and what follows it.\<close>

fun enters_shell :: "request_event \<Rightarrow> bool" where
  "enters_shell Shell_Accepted = True"
| "enters_shell (Middleware_Ran es) = True"
| "enters_shell (Session_Created p) = True"
| "enters_shell e = False"

section \<open>Observations and invariants\<close>

text \<open>What a trace and a history show.\<close>

definition state_of :: "outcome \<Rightarrow> dstate" where
  "state_of out = (case out of Inl (e, st) \<Rightarrow> st | Inr st \<Rightarrow> st)"

fun called_by :: "hevent \<Rightarrow> nat list" where
  "called_by (Next_Called i) = [i]"
| "called_by Terminal_Called = []"
| "called_by (Threw i e) = []"
| "called_by Accept_Called = []"
| "called_by (Reject_Called ms) = []"

definition next_calls :: "hevent list \<Rightarrow> nat list" where
  "next_calls h = concat (map called_by h)"

fun thrown_by :: "hevent \<Rightarrow> error list" where
  "thrown_by (Next_Called i) = []"
| "thrown_by Terminal_Called = []"
| "thrown_by (Threw i e) = [e]"
| "thrown_by Accept_Called = []"
| "thrown_by (Reject_Called ms) = []"

definition throws :: "hevent list \<Rightarrow> error list" where
  "throws h = concat (map thrown_by h)"

fun is_decision :: "event \<Rightarrow> bool" where
  "is_decision Transport_Accept = True"
| "is_decision (Transport_Reject ms) = True"
| "is_decision e = False"

definition transport_events :: "event list \<Rightarrow> event list" where
  "transport_events es = filter is_decision es"

fun is_attempt :: "event \<Rightarrow> bool" where
  "is_attempt (Auth_Attempt r) = True"
| "is_attempt e = False"

definition auth_attempts :: "event list \<Rightarrow> event list" where
  "auth_attempts es = filter is_attempt es"

text \<open>The calls of \<open>accept\<close> and \<open>reject\<close> that the middlewares have made.\<close>

fun is_decision_call :: "hevent \<Rightarrow> bool" where
  "is_decision_call Accept_Called = True"
| "is_decision_call (Reject_Called ms) = True"
| "is_decision_call h = False"

definition decisions :: "hevent list \<Rightarrow> hevent list" where
  "decisions h = filter is_decision_call h"

text \<open>Neither flag of \<open>handleAuth\<close> is set.\<close>

definition undecided :: "world \<Rightarrow> bool" where
  "undecided w = (\<not> accepted w \<and> \<not> rejected w)"

text \<open>
  What the transport is sent in an authentication dispatch with a given history, if every
  call of \<open>accept\<close> or \<open>reject\<close> is forwarded and the terminal continuation rejects
  unless such a call came before it. The second component says whether one has.
\<close>

fun forward :: "event list \<times> bool \<Rightarrow> hevent \<Rightarrow> event list \<times> bool" where
  "forward (es, d) Accept_Called = (es @ [Transport_Accept], True)"
| "forward (es, d) (Reject_Called ms) = (es @ [Transport_Reject ms], True)"
| "forward (es, d) Terminal_Called =
     (if d then es else es @ [Transport_Reject (Some [''publickey''])], d)"
| "forward (es, d) h = (es, d)"

definition forwarding :: "hevent list \<Rightarrow> event list \<times> bool" where
  "forwarding h = foldl forward ([], False) h"

definition expected_transport :: "hevent list \<Rightarrow> event list" where
  "expected_transport h = fst (forwarding h)"

text \<open>Two attempts and a configuration for the examples.\<close>

definition guest :: auth_context where
  "guest = \<lparr>ctx_username = ''guest'', ctx_method = ''none'', ctx_key = None\<rparr>"

definition key_holder :: auth_context where
  "key_holder =
     \<lparr>ctx_username = ''testuser'', ctx_method = ''publickey'',
      ctx_key = Some (''ssh-ed25519'', ''AAAA'')\<rparr>"

definition all_callbacks :: logging_options where
  "all_callbacks = \<lparr>onAuthAttempt = True, onConnect = True, onDisconnect = True\<rparr>"

subsection \<open>Invariants of a dispatch\<close>

text \<open>
  \<open>post I E\<close> holds of an outcome when a normal end satisfies \<open>I\<close> and an exception
  satisfies \<open>E\<close>. \<open>preserved I\<close> says that the steps a middleware takes on the context
  keep \<open>I\<close>.
\<close>

definition post :: "(dstate \<Rightarrow> bool) \<Rightarrow> (error \<times> dstate \<Rightarrow> bool) \<Rightarrow> outcome \<Rightarrow> bool" where
  "post I E out = (case out of Inl f \<Rightarrow> E f | Inr st \<Rightarrow> I st)"

definition preserved :: "(dstate \<Rightarrow> bool) \<Rightarrow> bool" where
  "preserved I =
     (\<forall>s. I s \<longrightarrow>
        (\<forall>l. I (on_world (emit l) s)) \<and>
        I (accept_call s) \<and>
        (\<forall>ms. I (reject_call ms s)) \<and>
        (\<forall>k. I (on_world (wrap_decisions k) s)) \<and>
        (\<forall>opts k. I (on_world (report_attempt opts k) s)) \<and>
        (\<forall>opts. I (on_world (announce_connection opts) s)))"

text \<open>
  No continuation has been called twice, and every continuation that has been called
  belongs to a position below \<open>index\<close>. Before \<open>dispatch(i)\<close> has run its guard, the
  continuation just called may be the exception to either part.
\<close>

definition reentrant_next :: error where
  "reentrant_next = Error ''next() called multiple times''"

definition calls_inv :: "dstate \<Rightarrow> bool" where
  "calls_inv st =
     (distinct (next_calls (history st)) \<and>
      (\<forall>j\<in>set (next_calls (history st)). int j < index st))"

definition calls_pre :: "nat \<Rightarrow> dstate \<Rightarrow> bool" where
  "calls_pre i st =
     ((\<forall>j\<in>set (next_calls (history st)). int j < index st \<or> j < i) \<and>
      (distinct (next_calls (history st)) \<or> int i \<le> index st))"

definition calls_fault :: "error \<times> dstate \<Rightarrow> bool" where
  "calls_fault f = (calls_inv (snd f) \<or> fst f = reentrant_next)"

text \<open>Nothing has been thrown; or the dispatch ends with the one exception thrown.\<close>

definition no_throw :: "dstate \<Rightarrow> bool" where
  "no_throw st = (throws (history st) = [])"

definition throw_fault :: "error \<times> dstate \<Rightarrow> bool" where
  "throw_fault f = (set (throws (history (snd f))) \<subseteq> {fst f})"

text \<open>
  In a dispatch of \<open>handleAuth\<close> over \<open>n\<close> middlewares: the terminal continuation has run
  only if \<open>index\<close> has reached \<open>n\<close>; a flag is set exactly when a middleware has called
  \<open>accept\<close> or \<open>reject\<close>; the transport has received what the history forwards; and
  while no decision is recorded, no \<open>logging\<close> activation has a result, no attempt has
  been reported, and the transport has received the default reject if the terminal
  continuation has run and nothing otherwise.
\<close>

definition auth_inv :: "nat \<Rightarrow> dstate \<Rightarrow> bool" where
  "auth_inv n st =
     ((Terminal_Called \<in> set (history st) \<longrightarrow> int n \<le> index st) \<and>
      undecided (world st) = (decisions (history st) = []) \<and>
      transport_events (trace (world st)) = expected_transport (history st) \<and>
      (undecided (world st) \<longrightarrow>
         (\<forall>k. authResult (world st) k = None) \<and>
         auth_attempts (trace (world st)) = [] \<and>
         transport_events (trace (world st)) =
           (if Terminal_Called \<in> set (history st)
            then [Transport_Reject (Some [''publickey''])] else [])))"

definition auth_pre :: "nat \<Rightarrow> nat \<Rightarrow> dstate \<Rightarrow> bool" where
  "auth_pre n i st = (auth_inv n st \<and> i \<le> n)"

definition auth_fault :: "nat \<Rightarrow> error \<times> dstate \<Rightarrow> bool" where
  "auth_fault n f = auth_inv n (snd f)"

section \<open>Properties of the session bridge\<close>

subsection \<open>Resize\<close>

lemma js_less_Num_left: "js_less n (Num c) = (case n of Num x \<Rightarrow> x < c | Neg_Infinity \<Rightarrow> True | Pos_Infinity \<Rightarrow> False | NaN \<Rightarrow> False)"
  by (cases n) simp_all

lemma js_less_Num_right: "js_less (Num c) n = (case n of Num x \<Rightarrow> c < x | Pos_Infinity \<Rightarrow> True | Neg_Infinity \<Rightarrow> False | NaN \<Rightarrow> False)"
  by (cases n) simp_all

text \<open>
  On numbers other than \<open>NaN\<close>, \<open>handleResize\<close> ignores a request with a dimension outside
  \<open>[1, 10000]\<close> and carries out every other.
\<close>

lemma handleResize_numbers:
  assumes "w \<noteq> NaN" and "h \<noteq> NaN"
  shows "(\<not> in_range w \<or> \<not> in_range h \<longrightarrow> handleResize w h s = s) \<and>
         (in_range w \<and> in_range h \<longrightarrow>
            pty (handleResize w h s) = \<lparr>term_type = term_type (pty s), width = w, height = h\<rparr> \<and>
            events (handleResize w h s) = events s @ [Renderer_Resize w h, Emit_Resize w h] \<and>
            closed (handleResize w h s) = closed s \<and>
            pending (handleResize w h s) = pending s)"
  using assms
  by (cases w; cases h) (auto simp: handleResize_def)

lemma handleResize_examples:
  "handleResize (Num 0) (Num 24) (new_session xterm) = new_session xterm \<and>
   handleResize (Num 80) (Num 0) (new_session xterm) = new_session xterm \<and>
   handleResize (Num 10001) (Num 24) (new_session xterm) = new_session xterm \<and>
   events (handleResize (Num 100) (Num 30) (new_session xterm)) =
     [Renderer_Resize (Num 100) (Num 30), Emit_Resize (Num 100) (Num 30)]"
  by (simp add: handleResize_def new_session_def)

text \<open>
  Claim C5 fails on the code at \<open>NaN\<close>. \<open>NaN\<close> is not within \<open>[1, 10000]\<close>, yet all four
  comparisons of the guard are false for it: \<open>handleResize(NaN, 24)\<close> stores \<open>NaN\<close> as
  the width, resizes the renderer and emits a resize event.
\<close>

theorem handleResize_NaN_not_ignored:
  "\<not> in_range NaN \<and>
   pty (handleResize NaN (Num 24) (new_session xterm)) =
     \<lparr>term_type = ''xterm'', width = NaN, height = Num 24\<rparr> \<and>
   events (handleResize NaN (Num 24) (new_session xterm)) =
     [Renderer_Resize NaN (Num 24), Emit_Resize NaN (Num 24)]"
  by (simp add: handleResize_def new_session_def xterm_def)

subsection \<open>Teardown\<close>

lemma catch_events_one_close:
  "length (filter (\<lambda>e. e = Emit_Close) (catch_events t m listener)) = 1"
  by (cases listener) (simp_all add: catch_events_def)

lemma teardown_events_one_close:
  "length (filter (\<lambda>e. e = Emit_Close) (teardown_events t a None)) = 1"
  by (cases a) (simp_all add: teardown_events_def catch_events_one_close)

lemma teardown_inv_handleResize: "teardown_inv s \<Longrightarrow> teardown_inv (handleResize w h s)"
  by (auto simp: teardown_inv_def handleResize_def close_events_def split: if_splits)

lemma teardown_inv_close: "teardown_inv s \<Longrightarrow> teardown_inv (close c s)"
  by (simp add: teardown_inv_def close_def close_events_def)

lemma teardown_inv_cleanup: "teardown_inv s \<Longrightarrow> teardown_inv (cleanup s)"
  by (simp add: teardown_inv_def cleanup_def close_events_def)

lemma teardown_inv_settle: "teardown_inv s \<Longrightarrow> teardown_inv (settle a None s)"
  by (cases "pending s")
     (simp_all add: teardown_inv_def settle_def close_events_def teardown_events_one_close)

lemma teardown_inv_step:
  "teardown_inv s \<Longrightarrow> listeners_return x \<Longrightarrow> teardown_inv (session_step x s)"
proof (cases x)
  case (Stream_Error m)
  assume "teardown_inv s"
  then have "teardown_inv (s\<lparr>events := events s @ [Console_Error (''[SSH] Stream error: '' @ m)]\<rparr>)"
    by (simp add: teardown_inv_def close_events_def)
  then show ?thesis using Stream_Error by (simp add: teardown_inv_cleanup)
qed (simp_all add: teardown_inv_handleResize teardown_inv_close teardown_inv_cleanup
      teardown_inv_settle, simp add: teardown_inv_def close_events_def)

lemma teardown_inv_run:
  "teardown_inv s \<Longrightarrow> list_all listeners_return ops \<Longrightarrow> teardown_inv (run_session ops s)"
  by (induction ops arbitrary: s) (simp_all add: teardown_inv_step)

lemma closed_step: "closed s \<Longrightarrow> closed (session_step x s)"
  by (cases x) (simp_all add: handleResize_def close_def cleanup_def settle_def split: list.splits)

lemma closed_run: "closed s \<Longrightarrow> closed (run_session ops s)"
  by (induction ops arbitrary: s) (simp_all add: closed_step)

lemma closed_after_close: "Close c \<in> set ops \<Longrightarrow> closed (run_session ops s)"
proof (induction ops arbitrary: s)
  case Nil
  then show ?case by simp
next
  case (Cons x xs)
  show ?case
  proof (cases "x = Close c")
    case True
    have "closed (close c s)" by (simp add: close_def)
    then show ?thesis using True by (simp add: closed_run)
  next
    case False
    then show ?thesis using Cons by simp
  qed
qed

text \<open>
  The closed flag makes both teardowns idempotent: a second \<open>close\<close> changes nothing, and
  neither does a \<open>close\<close> after the cleanup that a channel close or error has run.
\<close>

lemma close_guarded:
  "close c' (close c s) = close c s \<and>
   close c (cleanup s) = cleanup s \<and>
   close c (session_step (Stream_Error m) s) = session_step (Stream_Error m) s \<and>
   (closed s \<longrightarrow> close c s = s \<and> cleanup s = s)"
  by (simp add: close_def cleanup_def)

text \<open>
  While no listener of \<open>close\<close> throws: whatever the application, the channel and the
  renderer do to a new session, the close events emitted and the teardowns still
  scheduled add up to one when the session is closed and to none when it is not.
\<close>

lemma close_once_while_listeners_return:
  assumes "list_all listeners_return ops"
  shows "close_events (run_session ops (new_session p)) +
           length (pending (run_session ops (new_session p))) =
         (if closed (run_session ops (new_session p)) then 1 else 0)"
proof -
  have "teardown_inv (new_session p)"
    by (simp add: teardown_inv_def new_session_def close_events_def)
  then have "teardown_inv (run_session ops (new_session p))"
    using assms by (rule teardown_inv_run)
  then show ?thesis by (simp add: teardown_inv_def)
qed

text \<open>
  Claim C6 fails on the code when a listener of \<open>close\<close> throws. The session is closed
  twice; the second \<open>close\<close> does nothing, and one teardown runs. The renderer settles,
  \<open>emit("close")\<close> inside \<open>then\<close> throws the listener's exception, and the \<open>catch\<close>
  handler, written for a failure of the renderer, logs it and emits \<open>close\<close> again.
\<close>

theorem close_emitted_twice:
  "events (run_session [Close 0, Close 0, Renderer_Answer Settles (Some ''listener failed'')]
             (new_session xterm)) =
     [Stream_Exit 0, Stream_End, Renderer_Stop, Renderer_Destroy, Emit_Close,
      Console_Error ''[SSH] Error during session close: listener failed'', Emit_Close,
      Unhandled_Rejection ''listener failed''] \<and>
   close_events (run_session [Close 0, Close 0, Renderer_Answer Settles (Some ''listener failed'')]
             (new_session xterm)) = 2"
  by (simp add: new_session_def close_def settle_def teardown_events_def catch_events_def
      teardown_label_def close_events_def)

subsection \<open>The flush handler\<close>

lemma done_calls_write_completed: "done_calls (write_completed err) = 1"
  by (cases err) (simp_all add: write_completed_def done_calls_def)

lemma done_calls_append: "done_calls (xs @ ys) = done_calls xs + done_calls ys"
  by (simp add: done_calls_def)

lemma done_calls_completions:
  "done_calls (concat (map write_completed cbs)) = length cbs"
  by (induction cbs) (simp_all add: done_calls_append done_calls_write_completed, simp add: done_calls_def)

lemma done_calls_Cons: "done_calls (e # es) = (if e = Done then 1 else 0) + done_calls es"
  by (simp add: done_calls_def)

lemma done_calls_onFlush:
  "done_calls (onFlush session writable wb buffer) =
     (if (case session of None \<Rightarrow> False | Some s \<Rightarrow> closed s) \<or> \<not> writable then 1
      else length (callbacks wb) + (case thrown wb of None \<Rightarrow> 0 | Some m \<Rightarrow> 1))"
proof (cases "thrown wb")
  case None
  then show ?thesis
    by (simp add: onFlush_def done_calls_Cons done_calls_append done_calls_completions)
       (simp add: done_calls_def)
next
  case (Some m)
  have "done_calls [Flush_Error (''[SSH] Stream write threw: '' @ m), Done] = 1"
    by (simp add: done_calls_def)
  then show ?thesis using Some
    by (simp add: onFlush_def done_calls_Cons done_calls_append done_calls_completions)
qed

text \<open>
  Claim C1. The flush handler acknowledges every flush once, and each acknowledgment has
  its place. With the session closed or the channel not writable the handler only calls
  \<open>done\<close> and does not write. Otherwise it writes, and \<open>done\<close> is called once for each
  completion callback the channel makes, after the error of that callback is logged, and
  once from the catch block when \<open>write\<close> throws, after the exception is logged, and at
  no other point. So under the contract of a writable stream \<open>done\<close> is called once:
  from the catch block when \<open>write\<close> throws, from the completion callback when the write
  is accepted.
\<close>

theorem onFlush_done_exactly_once:
  "((case session of None \<Rightarrow> False | Some s \<Rightarrow> closed s) \<or> \<not> writable \<longrightarrow>
      onFlush session writable wb buffer = [Done]) \<and>
   (\<not> ((case session of None \<Rightarrow> False | Some s \<Rightarrow> closed s) \<or> \<not> writable) \<longrightarrow>
      done_calls (onFlush session writable wb buffer) =
        length (callbacks wb) + (case thrown wb of None \<Rightarrow> 0 | Some m \<Rightarrow> 1) \<and>
      (callbacks wb = [] \<and> thrown wb = None \<longrightarrow>
         onFlush session writable wb buffer = [Channel_Write buffer]) \<and>
      (\<forall>m. callbacks wb = [] \<and> thrown wb = Some m \<longrightarrow>
         onFlush session writable wb buffer =
           [Channel_Write buffer, Flush_Error (''[SSH] Stream write threw: '' @ m), Done]) \<and>
      (callbacks wb = [None] \<and> thrown wb = None \<longrightarrow>
         onFlush session writable wb buffer = [Channel_Write buffer, Done]) \<and>
      (\<forall>m. callbacks wb = [Some m] \<and> thrown wb = None \<longrightarrow>
         onFlush session writable wb buffer =
           [Channel_Write buffer, Flush_Error (''[SSH] Stream write error: '' @ m), Done])) \<and>
   (write_contract wb \<longrightarrow> done_calls (onFlush session writable wb buffer) = 1)"
proof -
  have "done_calls (onFlush session writable wb buffer) = 1" if c: "write_contract wb"
    using c by (cases "thrown wb") (simp_all add: done_calls_onFlush write_contract_def)
  then show ?thesis
    using done_calls_onFlush [of session writable wb buffer]
    by (auto simp: onFlush_def write_completed_def)
qed

theorem onFlush_done_exactly_once_witness:
  "onFlush (Some (close 0 (new_session xterm))) True
      \<lparr>callbacks = [None], thrown = None\<rparr> [27, 91] = [Done] \<and>
   onFlush None False \<lparr>callbacks = [None], thrown = None\<rparr> [27, 91] = [Done] \<and>
   write_contract \<lparr>callbacks = [], thrown = Some ''destroyed''\<rparr> \<and>
   onFlush None True \<lparr>callbacks = [], thrown = Some ''destroyed''\<rparr> [27, 91] =
     [Channel_Write [27, 91], Flush_Error ''[SSH] Stream write threw: destroyed'', Done] \<and>
   done_calls (onFlush None True \<lparr>callbacks = [], thrown = Some ''destroyed''\<rparr> [27, 91]) = 1 \<and>
   write_contract \<lparr>callbacks = [Some ''EPIPE''], thrown = None\<rparr> \<and>
   onFlush None True \<lparr>callbacks = [Some ''EPIPE''], thrown = None\<rparr> [27, 91] =
     [Channel_Write [27, 91], Flush_Error ''[SSH] Stream write error: EPIPE'', Done] \<and>
   done_calls (onFlush None True \<lparr>callbacks = [Some ''EPIPE''], thrown = None\<rparr> [27, 91]) = 1 \<and>
   write_contract \<lparr>callbacks = [None], thrown = None\<rparr> \<and>
   onFlush None True \<lparr>callbacks = [None], thrown = None\<rparr> [27, 91] = [Channel_Write [27, 91], Done] \<and>
   onFlush None True \<lparr>callbacks = [], thrown = None\<rparr> [27, 91] = [Channel_Write [27, 91]] \<and>
   done_calls (onFlush None True \<lparr>callbacks = [], thrown = None\<rparr> [27, 91]) = 0"
  using onFlush_done_exactly_once [of "Some (close 0 (new_session xterm))"
          True "\<lparr>callbacks = [None], thrown = None\<rparr>" "[27, 91]"]
        onFlush_done_exactly_once [of None False "\<lparr>callbacks = [None], thrown = None\<rparr>" "[27, 91]"]
        onFlush_done_exactly_once [of None True "\<lparr>callbacks = [], thrown = Some ''destroyed''\<rparr>" "[27, 91]"]
        onFlush_done_exactly_once [of None True "\<lparr>callbacks = [Some ''EPIPE''], thrown = None\<rparr>" "[27, 91]"]
        onFlush_done_exactly_once [of None True "\<lparr>callbacks = [None], thrown = None\<rparr>" "[27, 91]"]
        onFlush_done_exactly_once [of None True "\<lparr>callbacks = [], thrown = None\<rparr>" "[27, 91]"]
  by (simp add: write_contract_def close_def new_session_def done_calls_def)

section \<open>Properties of the middleware pipeline\<close>

lemma emit_all_Nil [simp]: "emit_all [] w = w"
  by (simp add: emit_all_def)

lemma emit_all_emit_all [simp]: "emit_all ys (emit_all xs w) = emit_all (xs @ ys) w"
  by (simp add: emit_all_def)

lemma run_script_emits:
  "run_script i nxt (map Emit ss @ rest) st = run_script i nxt rest (on_world (emit_all ss) st)"
proof (induction ss arbitrary: st)
  case Nil
  show ?case by (simp add: on_world_def)
next
  case (Cons s ss)
  have "on_world (emit_all ss) (on_world (emit s) st) = on_world (emit_all (s # ss)) st"
    by (simp add: on_world_def emit_all_def emit_def)
  then show ?case by (simp add: Cons)
qed

lemma run_onion:
  "run_script i nxt (map Emit bs @ Await_Next # map Emit as) st =
     (case nxt (on_world (emit_all bs) st) of
        Inl f \<Rightarrow> Inl f
      | Inr st' \<Rightarrow> Inr (on_world (emit_all as) st'))"
proof -
  have "run_script i nxt (map Emit as) st' = Inr (on_world (emit_all as) st')" for st'
    using run_script_emits [of i nxt as "[]" st'] by simp
  then show ?thesis by (simp add: run_script_emits split: sum.splits)
qed

lemma upt_step: "[i..<i + Suc n] = i # [Suc i..<Suc i + n]"
  by (simp add: upt_conv_Cons del: upt_Suc)

lemma dispatch_onions:
  "length pre = i \<Longrightarrow> index st < int i \<Longrightarrow>
   dispatch (pre @ map onion ls) (final l) i st =
     Inr \<lparr>index = int (i + length ls),
          history = history st @ map Next_Called [i..<i + length ls] @ [Terminal_Called],
          world = emit_all (concat (map fst ls) @ [l] @ concat (rev (map snd ls))) (world st)\<rparr>"
proof (induction ls arbitrary: pre i st)
  case Nil
  then show ?case
    by (simp add: dispatch.simps call_terminal_def record_event_def final_def emit_def emit_all_def)
next
  case (Cons x ls)
  let ?chain = "pre @ map onion (x # ls)"
  let ?s = "record_event (Next_Called i) (on_world (emit_all (fst x)) (st\<lparr>index := int i\<rparr>))"
  have nth: "?chain ! i = onion x" using Cons.prems by (simp add: nth_append)
  have inner: "dispatch ((pre @ [onion x]) @ map onion ls) (final l) (Suc i) ?s =
     Inr \<lparr>index = int (Suc i + length ls),
          history = history ?s @ map Next_Called [Suc i..<Suc i + length ls] @ [Terminal_Called],
          world = emit_all (concat (map fst ls) @ [l] @ concat (rev (map snd ls))) (world ?s)\<rparr>"
    using Cons.prems by (intro Cons.IH) (simp_all add: record_event_def on_world_def)
  have "dispatch ?chain (final l) i st =
     run_script i (\<lambda>s. dispatch ?chain (final l) (Suc i) (record_event (Next_Called i) s))
       (map Emit (fst x) @ Await_Next # map Emit (snd x)) (st\<lparr>index := int i\<rparr>)"
    using Cons.prems nth by (subst dispatch.simps) (simp add: onion_def)
  also have "\<dots> = Inr \<lparr>index = int (i + length (x # ls)),
          history = history st @ map Next_Called [i..<i + length (x # ls)] @ [Terminal_Called],
          world = emit_all (concat (map fst (x # ls)) @ [l] @ concat (rev (map snd (x # ls))))
                    (world st)\<rparr>"
    unfolding run_onion using inner upt_step [of i "length ls"]
    by (simp add: on_world_def record_event_def del: upt_Suc)
  finally show ?case .
qed

lemma dispatch_onions_short:
  "length pre = i \<Longrightarrow> index st < int i \<Longrightarrow>
   dispatch (pre @ map onion ls @ Custom (map Emit ss) # rest) next i st =
     Inr \<lparr>index = int (i + length ls),
          history = history st @ map Next_Called [i..<i + length ls],
          world = emit_all (concat (map fst ls) @ ss @ concat (rev (map snd ls))) (world st)\<rparr>"
proof (induction ls arbitrary: pre i st)
  case Nil
  have "run_script i nxt (map Emit ss) s = Inr (on_world (emit_all ss) s)" for nxt s
    using run_script_emits [of i nxt ss "[]" s] by simp
  then show ?case using Nil
    by (subst dispatch.simps) (simp add: nth_append on_world_def)
next
  case (Cons x ls)
  let ?chain = "pre @ map onion (x # ls) @ Custom (map Emit ss) # rest"
  let ?s = "record_event (Next_Called i) (on_world (emit_all (fst x)) (st\<lparr>index := int i\<rparr>))"
  have nth: "?chain ! i = onion x" using Cons.prems by (simp add: nth_append)
  have inner: "dispatch ((pre @ [onion x]) @ map onion ls @ Custom (map Emit ss) # rest) next (Suc i) ?s =
     Inr \<lparr>index = int (Suc i + length ls),
          history = history ?s @ map Next_Called [Suc i..<Suc i + length ls],
          world = emit_all (concat (map fst ls) @ ss @ concat (rev (map snd ls))) (world ?s)\<rparr>"
    using Cons.prems by (intro Cons.IH) (simp_all add: record_event_def on_world_def)
  have "dispatch ?chain next i st =
     run_script i (\<lambda>s. dispatch ?chain next (Suc i) (record_event (Next_Called i) s))
       (map Emit (fst x) @ Await_Next # map Emit (snd x)) (st\<lparr>index := int i\<rparr>)"
    using Cons.prems nth by (subst dispatch.simps) (simp add: onion_def)
  also have "\<dots> = Inr \<lparr>index = int (i + length (x # ls)),
          history = history st @ map Next_Called [i..<i + length (x # ls)],
          world = emit_all (concat (map fst (x # ls)) @ ss @ concat (rev (map snd (x # ls))))
                    (world st)\<rparr>"
    unfolding run_onion using inner upt_step [of i "length ls"]
    by (simp add: on_world_def record_event_def del: upt_Suc)
  finally show ?case .
qed

text \<open>
  Claim C2. In one dispatch of a composed chain whose middlewares each have effects, await
  \<open>next\<close> and have further effects, the effects before \<open>next\<close> happen in the order of the
  chain, then the terminal continuation runs once, then the effects after \<open>next\<close> happen
  in the reverse order of the chain. When such middlewares are followed by one that has
  effects and never calls \<open>next\<close>, the dispatch ends normally: the middlewares after it
  and the terminal continuation do not run, and the effects after \<open>next\<close> of the
  middlewares before it happen in reverse order.
\<close>

theorem compose_onion_order:
  "compose (map onion ls) (final l) w =
     Inr \<lparr>index = int (length ls),
          history = map Next_Called [0..<length ls] @ [Terminal_Called],
          world = w\<lparr>trace := trace w @ map Emitted (concat (map fst ls)) @ [Emitted l] @
                                        map Emitted (concat (rev (map snd ls)))\<rparr>\<rparr> \<and>
   compose (map onion ls @ Custom (map Emit ss) # rest) next w =
     Inr \<lparr>index = int (length ls),
          history = map Next_Called [0..<length ls],
          world = w\<lparr>trace := trace w @ map Emitted (concat (map fst ls)) @ map Emitted ss @
                                        map Emitted (concat (rev (map snd ls)))\<rparr>\<rparr>"
  using dispatch_onions [of "[]" 0 "\<lparr>index = - 1, history = [], world = w\<rparr>" ls l]
        dispatch_onions_short [of "[]" 0 "\<lparr>index = - 1, history = [], world = w\<rparr>" ls ss rest "next"]
  by (simp add: compose_def emit_all_def)

theorem compose_onion_order_witness:
  "compose [onion ([''mw1-before''], [''mw1-after'']), onion ([''mw2-before''], [''mw2-after'']),
            onion ([''mw3-before''], [''mw3-after''])] (final ''final'') (auth_world guest) =
     Inr \<lparr>index = 3,
          history = [Next_Called 0, Next_Called 1, Next_Called 2, Terminal_Called],
          world = (auth_world guest)\<lparr>trace :=
            [Emitted ''mw1-before'', Emitted ''mw2-before'', Emitted ''mw3-before'',
             Emitted ''final'',
             Emitted ''mw3-after'', Emitted ''mw2-after'', Emitted ''mw1-after'']\<rparr>\<rparr> \<and>
   compose [onion ([''mw1-before''], [''mw1-after'']), Custom [Emit ''short-circuit''],
            onion ([''mw3-before''], [''mw3-after''])] (final ''final'') (auth_world guest) =
     Inr \<lparr>index = 1,
          history = [Next_Called 0],
          world = (auth_world guest)\<lparr>trace :=
            [Emitted ''mw1-before'', Emitted ''short-circuit'', Emitted ''mw1-after'']\<rparr>\<rparr>"
  using compose_onion_order [of "[([''mw1-before''], [''mw1-after'']),
            ([''mw2-before''], [''mw2-after'']), ([''mw3-before''], [''mw3-after''])]"
          "''final''" "auth_world guest" "[]" "[]" "final ''final''"]
        compose_onion_order [of "[([''mw1-before''], [''mw1-after''])]" "''final''"
          "auth_world guest" "[''short-circuit'']" "[onion ([''mw3-before''], [''mw3-after''])]"
          "final ''final''"]
  by (simp add: auth_world_def upt_rec)

subsection \<open>Rules for invariants\<close>

lemma post_Inl [simp]: "post I E (Inl f) = E f"
  by (simp add: post_def)

lemma post_Inr [simp]: "post I E (Inr st) = I st"
  by (simp add: post_def)

lemma run_script_rule:
  assumes pres: "preserved I"
    and nxt: "\<And>s. I s \<Longrightarrow> post I E (nxt s)"
    and throw: "\<And>s m. I s \<Longrightarrow> E (Error m, record_event (Threw i (Error m)) s)"
  shows "I st \<Longrightarrow> post I E (run_script i nxt script st)"
proof (induction script arbitrary: st)
  case Nil
  then show ?case by simp
next
  case (Cons a script)
  show ?case
  proof (cases a)
    case (Emit l)
    have "I (on_world (emit l) st)" using pres Cons.prems by (simp add: preserved_def)
    then show ?thesis using Emit by (simp add: Cons.IH)
  next
    case Call_Accept
    have "I (accept_call st)" using pres Cons.prems by (simp add: preserved_def)
    then show ?thesis using Call_Accept by (simp add: Cons.IH)
  next
    case (Call_Reject ms)
    have "I (reject_call ms st)" using pres Cons.prems by (simp add: preserved_def)
    then show ?thesis using Call_Reject by (simp add: Cons.IH)
  next
    case Await_Next
    have "post I E (nxt st)" using Cons.prems by (rule nxt)
    then show ?thesis using Await_Next
      by (cases "nxt st") (simp_all add: Cons.IH)
  next
    case (Throw m)
    then show ?thesis using throw [OF Cons.prems] by simp
  qed
qed

lemma logging_rule:
  assumes pres: "preserved I"
    and nxt: "\<And>s. I s \<Longrightarrow> post I E (nxt s)"
    and st: "I st"
  shows "post I E (logging opts k nxt st)"
proof (cases "phase (world st)")
  case Phase_Auth
  have "I (on_world (wrap_decisions k) st)" using pres st by (simp add: preserved_def)
  then have p: "post I E (nxt (on_world (wrap_decisions k) st))" by (rule nxt)
  show ?thesis
  proof (cases "nxt (on_world (wrap_decisions k) st)")
    case (Inl f)
    then show ?thesis using p Phase_Auth by (simp add: logging_def)
  next
    case (Inr st')
    then have "I st'" using p by simp
    then have "I (on_world (report_attempt opts k) st')" using pres by (simp add: preserved_def)
    then show ?thesis using Inr Phase_Auth by (simp add: logging_def)
  qed
next
  case Phase_Session
  have "I (on_world (announce_connection opts) st)" using pres st by (simp add: preserved_def)
  then have "post I E (nxt (on_world (announce_connection opts) st))" by (rule nxt)
  then show ?thesis using Phase_Session by (simp add: logging_def)
qed

lemma publicKey_rule:
  assumes pres: "preserved I"
    and nxt: "\<And>s. I s \<Longrightarrow> post I E (nxt s)"
    and st: "I st"
  shows "post I E (publicKey keys nxt st)"
proof -
  have a: "I (accept_call st)" using pres st by (simp add: preserved_def)
  have r: "I (reject_call (Some [''publickey'']) st)"
    using pres st by (simp add: preserved_def)
  show ?thesis
    using nxt [OF st] nxt [OF a] nxt [OF r]
    by (simp add: publicKey_def split: option.splits prod.splits)
qed

lemma devMode_rule:
  assumes pres: "preserved I"
    and nxt: "\<And>s. I s \<Longrightarrow> post I E (nxt s)"
    and st: "I st"
  shows "post I E (devMode nxt st)"
proof -
  have a: "I (accept_call st)" using pres st by (simp add: preserved_def)
  show ?thesis using nxt [OF st] nxt [OF a] by (simp add: devMode_def)
qed

lemma apply_middleware_rule:
  assumes pres: "preserved I"
    and nxt: "\<And>s. I s \<Longrightarrow> post I E (nxt s)"
    and throw: "\<And>s m. I s \<Longrightarrow> E (Error m, record_event (Threw i (Error m)) s)"
    and st: "I st"
  shows "post I E (apply_middleware m i nxt st)"
proof (cases m)
  case (Logging opts)
  then show ?thesis using logging_rule [OF pres nxt st] by simp
next
  case (PublicKey keys)
  then show ?thesis using publicKey_rule [OF pres nxt st] by simp
next
  case DevMode
  then show ?thesis using devMode_rule [OF pres nxt st] by simp
next
  case (Custom script)
  then show ?thesis using run_script_rule [OF pres nxt throw st] by simp
qed

lemma dispatch_rule:
  assumes pres: "preserved I"
    and throw: "\<And>s i m. I s \<Longrightarrow> E (Error m, record_event (Threw i (Error m)) s)"
    and reenter: "\<And>i st. Pre i st \<Longrightarrow> int i \<le> index st \<Longrightarrow>
                   E (Error ''next() called multiple times'', st)"
    and enter: "\<And>i st. Pre i st \<Longrightarrow> \<not> int i \<le> index st \<Longrightarrow> i < length mws \<Longrightarrow>
                 I (st\<lparr>index := int i\<rparr>)"
    and call: "\<And>i s. i < length mws \<Longrightarrow> I s \<Longrightarrow> Pre (Suc i) (record_event (Next_Called i) s)"
    and terminal: "\<And>i st. Pre i st \<Longrightarrow> \<not> int i \<le> index st \<Longrightarrow> \<not> i < length mws \<Longrightarrow>
                    post I E (call_terminal next (st\<lparr>index := int i\<rparr>))"
  shows "Pre i st \<Longrightarrow> post I E (dispatch mws next i st)"
proof (induction "length mws - i" arbitrary: i st)
  case 0
  show ?case
  proof (cases "int i \<le> index st")
    case True
    then show ?thesis using reenter [OF "0.prems"] by (subst dispatch.simps) simp
  next
    case False
    moreover have "\<not> i < length mws" using "0.hyps" by simp
    ultimately show ?thesis using terminal [OF "0.prems"] by (subst dispatch.simps) simp
  qed
next
  case (Suc n)
  have less: "i < length mws" using Suc.hyps(2) by simp
  show ?case
  proof (cases "int i \<le> index st")
    case True
    then show ?thesis using reenter [OF Suc.prems] by (subst dispatch.simps) simp
  next
    case False
    have entered: "I (st\<lparr>index := int i\<rparr>)" using enter [OF Suc.prems False less] .
    have continuation: "post I E (dispatch mws next (Suc i) (record_event (Next_Called i) s))"
      if "I s" for s
    proof (rule Suc.hyps(1))
      show "n = length mws - Suc i" using Suc.hyps(2) by simp
      show "Pre (Suc i) (record_event (Next_Called i) s)" using call [OF less that] .
    qed
    have "post I E (apply_middleware (mws ! i) i
            (\<lambda>s. dispatch mws next (Suc i) (record_event (Next_Called i) s))
            (st\<lparr>index := int i\<rparr>))"
      by (rule apply_middleware_rule [OF pres continuation throw entered])
    then show ?thesis using False less by (subst dispatch.simps) simp
  qed
qed

subsection \<open>Calling \<open>next\<close> twice\<close>

lemma next_calls_snoc [simp]: "next_calls (h @ [e]) = next_calls h @ called_by e"
  by (simp add: next_calls_def)

lemma next_calls_Nil [simp]: "next_calls [] = []"
  by (simp add: next_calls_def)

lemma calls_inv_on_world [simp]: "calls_inv (on_world f st) = calls_inv st"
  by (simp add: calls_inv_def on_world_def)

lemma calls_inv_accept_call [simp]: "calls_inv (accept_call st) = calls_inv st"
  by (cases "ctx_accept (world st)")
     (simp_all add: accept_call_def calls_inv_def record_event_def on_world_def)

lemma calls_inv_reject_call [simp]: "calls_inv (reject_call ms st) = calls_inv st"
  by (cases "ctx_reject (world st)")
     (simp_all add: reject_call_def calls_inv_def record_event_def on_world_def)

lemma preserved_calls_inv: "preserved calls_inv"
  by (simp add: preserved_def)

lemma calls_terminal:
  assumes "calls_pre i st" and "\<not> int i \<le> index st"
  shows "post calls_inv calls_fault (call_terminal next (st\<lparr>index := int i\<rparr>))"
proof -
  have "calls_inv ((record_event Terminal_Called (st\<lparr>index := int i\<rparr>))\<lparr>world := w\<rparr>)" for w
    using assms by (fastforce simp: calls_inv_def calls_pre_def record_event_def)
  then show ?thesis
    by (auto simp: call_terminal_def calls_fault_def split: sum.splits prod.splits)
qed

lemma calls_dispatch:
  assumes "calls_pre i st"
  shows "post calls_inv calls_fault (dispatch mws next i st)"
proof (rule dispatch_rule [where Pre = calls_pre, OF preserved_calls_inv _ _ _ _ _ assms])
  show "calls_fault (Error m, record_event (Threw i (Error m)) s)" if "calls_inv s" for s i m
    using that by (simp add: calls_fault_def calls_inv_def record_event_def)
  show "calls_fault (Error ''next() called multiple times'', st)" for st
    by (simp add: calls_fault_def reentrant_next_def)
  show "calls_inv (st\<lparr>index := int i\<rparr>)" if "calls_pre i st" "\<not> int i \<le> index st" for i st
    using that by (fastforce simp: calls_inv_def calls_pre_def)
  show "calls_pre (Suc i) (record_event (Next_Called i) s)" if "calls_inv s" for i s
    using that by (fastforce simp: calls_inv_def calls_pre_def record_event_def)
  show "post calls_inv calls_fault (call_terminal next (st\<lparr>index := int i\<rparr>))"
    if "calls_pre i st" "\<not> int i \<le> index st" for i st
    using that by (rule calls_terminal)
qed

text \<open>
  Claim C3. In a dispatch of any composed chain, with any terminal continuation and any
  context, if some middleware calls its \<open>next\<close> continuation a second time, then
  the dispatch ends with the exception \<open>next() called multiple times\<close>: the second
  call throws it and it reaches the caller of the composed middleware.
\<close>

theorem reentrant_next_faults:
  "\<not> distinct (next_calls (history (state_of (compose mws next w)))) \<Longrightarrow>
   compose mws next w =
     Inl (Error ''next() called multiple times'', state_of (compose mws next w))"
proof -
  assume twice: "\<not> distinct (next_calls (history (state_of (compose mws next w))))"
  have "calls_pre 0 \<lparr>index = - 1, history = [], world = w\<rparr>"
    by (simp add: calls_pre_def)
  then have p: "post calls_inv calls_fault (compose mws next w)"
    unfolding compose_def by (rule calls_dispatch)
  show ?thesis
  proof (cases "compose mws next w")
    case (Inl f)
    then show ?thesis using p twice
      by (cases f) (simp add: state_of_def calls_fault_def calls_inv_def reentrant_next_def)
  next
    case (Inr st)
    then show ?thesis using p twice by (simp add: state_of_def calls_inv_def)
  qed
qed

theorem reentrant_next_faults_witness:
  "\<not> distinct (next_calls (history (state_of
       (compose [onion ([''before''], [''after'']), Custom [Await_Next, Await_Next]]
          (final ''final'') (auth_world guest))))) \<and>
   compose [onion ([''before''], [''after'']), Custom [Await_Next, Await_Next]]
     (final ''final'') (auth_world guest) =
     Inl (Error ''next() called multiple times'',
          \<lparr>index = 2,
           history = [Next_Called 0, Next_Called 1, Terminal_Called, Next_Called 1],
           world = (auth_world guest)\<lparr>trace := [Emitted ''before'', Emitted ''final'']\<rparr>\<rparr>)"
proof -
  have run: "compose [onion ([''before''], [''after'']), Custom [Await_Next, Await_Next]]
     (final ''final'') (auth_world guest) =
     Inl (Error ''next() called multiple times'',
          \<lparr>index = 2,
           history = [Next_Called 0, Next_Called 1, Terminal_Called, Next_Called 1],
           world = (auth_world guest)\<lparr>trace := [Emitted ''before'', Emitted ''final'']\<rparr>\<rparr>)"
    by (simp add: compose_def dispatch.simps onion_def record_event_def on_world_def
        call_terminal_def final_def emit_def auth_world_def guest_def)
  have twice: "\<not> distinct (next_calls (history (state_of
       (compose [onion ([''before''], [''after'']), Custom [Await_Next, Await_Next]]
          (final ''final'') (auth_world guest)))))"
    by (simp add: run state_of_def next_calls_def)
  show ?thesis
    using twice reentrant_next_faults [OF twice] by (simp add: run)
qed

section \<open>Properties of the connection controller\<close>

lemma throws_snoc [simp]: "throws (h @ [e]) = throws h @ thrown_by e"
  by (simp add: throws_def)

lemma throws_Nil [simp]: "throws [] = []"
  by (simp add: throws_def)

lemma no_throw_on_world [simp]: "no_throw (on_world f st) = no_throw st"
  by (simp add: no_throw_def on_world_def)

lemma no_throw_accept_call [simp]: "no_throw (accept_call st) = no_throw st"
  by (cases "ctx_accept (world st)")
     (simp_all add: accept_call_def no_throw_def record_event_def on_world_def)

lemma no_throw_reject_call [simp]: "no_throw (reject_call ms st) = no_throw st"
  by (cases "ctx_reject (world st)")
     (simp_all add: reject_call_def no_throw_def record_event_def on_world_def)

lemma preserved_no_throw: "preserved no_throw"
  by (simp add: preserved_def)

lemma throws_terminal:
  assumes "no_throw st"
  shows "post no_throw throw_fault (call_terminal next st)"
proof -
  have "no_throw ((record_event Terminal_Called st)\<lparr>world := w\<rparr>)" for w
    using assms by (simp add: no_throw_def record_event_def)
  then show ?thesis
    by (auto simp: call_terminal_def throw_fault_def no_throw_def split: sum.splits prod.splits)
qed

lemma throws_dispatch:
  assumes "no_throw st"
  shows "post no_throw throw_fault (dispatch mws next i st)"
proof (rule dispatch_rule [where Pre = "\<lambda>i. no_throw", OF preserved_no_throw _ _ _ _ _ assms])
  show "throw_fault (Error m, record_event (Threw i (Error m)) s)" if "no_throw s" for s i m
    using that by (simp add: throw_fault_def no_throw_def record_event_def)
  show "throw_fault (Error ''next() called multiple times'', st)" if "no_throw st" for st
    using that by (simp add: throw_fault_def no_throw_def)
  show "no_throw (st\<lparr>index := int i\<rparr>)" if "no_throw st" for i st
    using that by (simp add: no_throw_def)
  show "no_throw (record_event (Next_Called i) s)" if "no_throw s" for i s
    using that by (simp add: no_throw_def record_event_def)
  show "post no_throw throw_fault (call_terminal next (st\<lparr>index := int i\<rparr>))"
    if "no_throw st" for i st
    using that by (intro throws_terminal) (simp add: no_throw_def)
qed

lemma throws_handleAuth: "post no_throw throw_fault (handleAuth mws ctx)"
proof (cases "mws = []")
  case True
  then show ?thesis
    by (simp add: handleAuth_def server_middleware_def throws_terminal no_throw_def)
next
  case False
  then show ?thesis
    by (simp add: handleAuth_def server_middleware_def compose_def throws_dispatch no_throw_def)
qed

text \<open>
  If a middleware throws during an authentication dispatch, \<open>handleAuth\<close> ends with that
  exception, and the handler of the listener emits it as an error event of the server.
  The transport's \<open>reject\<close> follows when \<open>emit\<close> returns, and only then.
\<close>

lemma middleware_throw_reported:
  assumes thrown: "e \<in> set (throws (history (on_authentication l mws ctx)))"
  shows "handleAuth mws ctx = Inl (e, state_of (handleAuth mws ctx)) \<and>
         trace (world (on_authentication l mws ctx)) =
           trace (world (state_of (handleAuth mws ctx))) @ emit_error l e @
           (if emit_returns l then [Transport_Reject None] else [])"
proof -
  have p: "post no_throw throw_fault (handleAuth mws ctx)" by (rule throws_handleAuth)
  show ?thesis
  proof (cases "handleAuth mws ctx")
    case (Inl f)
    obtain e' st where f: "f = (e', st)" by (cases f)
    have "history (on_authentication l mws ctx) = history st"
      using Inl f by (simp add: on_authentication_def on_world_def)
    then have "e' = e" using p thrown Inl f by (auto simp: throw_fault_def)
    then show ?thesis using Inl f
      by (simp add: on_authentication_def on_world_def state_of_def)
  next
    case (Inr st)
    then have "throws (history (on_authentication l mws ctx)) = []"
      using p by (simp add: on_authentication_def no_throw_def)
    then show ?thesis using thrown by simp
  qed
qed

lemma middleware_throw_with_listener:
  assumes "e \<in> set (throws (history (on_authentication Listener_Returns mws ctx)))"
  shows "trace (world (on_authentication Listener_Returns mws ctx)) =
           trace (world (state_of (handleAuth mws ctx))) @ [Error_Event e, Transport_Reject None]"
  using middleware_throw_reported [OF assms] by simp

lemma throwing_middleware_run:
  "handleAuth [Logging all_callbacks, Custom [Emit ''checking'', Throw ''boom'']] guest =
    Inl (Error ''boom'',
         \<lparr>index = 1, history = [Next_Called 0, Threw 1 (Error ''boom'')],
          world = (auth_world guest)\<lparr>
            ctx_accept := Some (Logging_Accept 0 Auth_Accept),
            ctx_reject := Some (Logging_Reject 0 Auth_Reject),
            trace := [Emitted ''checking'']\<rparr>\<rparr>)"
  by (simp add: handleAuth_def server_middleware_def compose_def dispatch.simps logging_def
      record_event_def on_world_def wrap_decisions_def emit_def auth_world_def guest_def
      all_callbacks_def)

lemma middleware_throw_listener_example:
  "trace (world (on_authentication Listener_Returns
       [Logging all_callbacks, Custom [Emit ''checking'', Throw ''boom'']] guest)) =
     [Emitted ''checking'', Error_Event (Error ''boom''), Transport_Reject None]"
  by (simp add: on_authentication_def throwing_middleware_run on_world_def)

text \<open>
  Claim C9 fails on the code for a server that has no listener of \<open>error\<close>. The second
  middleware throws; \<open>handleAuth\<close> ends with the exception; in the handler
  \<open>emit("error", err)\<close> throws it again, \<open>ctx.reject()\<close> is not reached, and the transport
  receives no answer to the attempt. With a listener that throws, the error event is
  delivered and the attempt is not answered either.
\<close>

theorem middleware_throw_unanswered:
  "throws (history (on_authentication No_Listener
       [Logging all_callbacks, Custom [Emit ''checking'', Throw ''boom'']] guest)) =
     [Error ''boom''] \<and>
   trace (world (on_authentication No_Listener
       [Logging all_callbacks, Custom [Emit ''checking'', Throw ''boom'']] guest)) =
     [Emitted ''checking'', Uncaught (Error ''boom'')] \<and>
   transport_events (trace (world (on_authentication No_Listener
       [Logging all_callbacks, Custom [Emit ''checking'', Throw ''boom'']] guest))) = [] \<and>
   trace (world (on_authentication (Listener_Throws (Error ''listener failed''))
       [Logging all_callbacks, Custom [Emit ''checking'', Throw ''boom'']] guest)) =
     [Emitted ''checking'', Error_Event (Error ''boom''), Uncaught (Error ''listener failed'')]"
  by (simp add: on_authentication_def throwing_middleware_run on_world_def throws_def
      transport_events_def)

subsection \<open>Decisions and what the transport receives\<close>

lemma invoke_accept_effect:
  "accepted (invoke_accept f w) \<and>
   rejected (invoke_accept f w) = rejected w \<and>
   trace (invoke_accept f w) = trace w @ [Transport_Accept]"
  by (induction f arbitrary: w) simp_all

lemma invoke_reject_effect:
  "rejected (invoke_reject f ms w) \<and>
   accepted (invoke_reject f ms w) = accepted w \<and>
   trace (invoke_reject f ms w) = trace w @ [Transport_Reject ms]"
  by (induction f arbitrary: w) simp_all

lemma transport_events_snoc [simp]:
  "transport_events (es @ [e]) = transport_events es @ (if is_decision e then [e] else [])"
  by (simp add: transport_events_def)

lemma auth_attempts_snoc [simp]:
  "auth_attempts (es @ [e]) = auth_attempts es @ (if is_attempt e then [e] else [])"
  by (simp add: auth_attempts_def)

lemma decisions_snoc [simp]:
  "decisions (h @ [e]) = decisions h @ (if is_decision_call e then [e] else [])"
  by (simp add: decisions_def)

lemma decisions_Nil [simp]: "decisions [] = []"
  by (simp add: decisions_def)

lemma forwarding_snoc: "forwarding (h @ [e]) = forward (forwarding h) e"
  by (simp add: forwarding_def)

lemma forwarding_decided: "snd (forwarding h) = (decisions h \<noteq> [])"
proof (induction h rule: rev_induct)
  case Nil
  show ?case by (simp add: forwarding_def)
next
  case (snoc e h)
  obtain es d where p: "forwarding h = (es, d)" by (cases "forwarding h")
  show ?case using snoc p by (cases e) (simp_all add: forwarding_snoc)
qed

lemma expected_transport_snoc:
  "expected_transport (h @ [e]) =
     (case e of
        Accept_Called \<Rightarrow> expected_transport h @ [Transport_Accept]
      | Reject_Called ms \<Rightarrow> expected_transport h @ [Transport_Reject ms]
      | Terminal_Called \<Rightarrow>
          (if decisions h = [] then expected_transport h @ [Transport_Reject (Some [''publickey''])]
           else expected_transport h)
      | Next_Called i \<Rightarrow> expected_transport h
      | Threw i x \<Rightarrow> expected_transport h)"
proof -
  obtain es d where p: "forwarding h = (es, d)" by (cases "forwarding h")
  have d: "d = (decisions h \<noteq> [])" using forwarding_decided [of h] p by simp
  show ?thesis using p d by (cases e) (simp_all add: expected_transport_def forwarding_snoc)
qed

lemma expected_transport_Nil [simp]: "expected_transport [] = []"
  by (simp add: expected_transport_def forwarding_def)

subsection \<open>The invariant of an authentication dispatch\<close>

lemma auth_inv_emit: "auth_inv n s \<Longrightarrow> auth_inv n (on_world (emit l) s)"
  by (auto simp: auth_inv_def on_world_def emit_def undecided_def)

lemma auth_inv_accept_call: "auth_inv n s \<Longrightarrow> auth_inv n (accept_call s)"
proof (cases "ctx_accept (world s)")
  case None
  assume "auth_inv n s"
  then show ?thesis using None by (simp add: accept_call_def)
next
  case (Some f)
  assume "auth_inv n s"
  then show ?thesis using Some invoke_accept_effect [of f "world s"]
    by (auto simp: auth_inv_def accept_call_def record_event_def on_world_def undecided_def
        expected_transport_snoc)
qed

lemma auth_inv_reject_call: "auth_inv n s \<Longrightarrow> auth_inv n (reject_call ms s)"
proof (cases "ctx_reject (world s)")
  case None
  assume "auth_inv n s"
  then show ?thesis using None by (simp add: reject_call_def)
next
  case (Some f)
  assume "auth_inv n s"
  then show ?thesis using Some invoke_reject_effect [of f ms "world s"]
    by (auto simp: auth_inv_def reject_call_def record_event_def on_world_def undecided_def
        expected_transport_snoc)
qed

lemma auth_inv_wrap: "auth_inv n s \<Longrightarrow> auth_inv n (on_world (wrap_decisions k) s)"
  by (auto simp: auth_inv_def on_world_def wrap_decisions_def undecided_def)

lemma auth_inv_report: "auth_inv n s \<Longrightarrow> auth_inv n (on_world (report_attempt opts k) s)"
proof (cases "authResult (world s) k")
  case None
  assume "auth_inv n s"
  then show ?thesis using None by (simp add: on_world_def report_attempt_def)
next
  case (Some r)
  assume inv: "auth_inv n s"
  then have "\<not> undecided (world s)" using Some by (auto simp: auth_inv_def)
  then show ?thesis using inv
    by (auto simp: auth_inv_def on_world_def report_attempt_def undecided_def Some)
qed

lemma auth_inv_announce: "auth_inv n s \<Longrightarrow> auth_inv n (on_world (announce_connection opts) s)"
  by (auto simp: auth_inv_def on_world_def announce_connection_def undecided_def
      transport_events_def auth_attempts_def)

lemma preserved_auth_inv: "preserved (auth_inv n)"
  by (simp add: preserved_def auth_inv_emit auth_inv_accept_call auth_inv_reject_call
      auth_inv_wrap auth_inv_report auth_inv_announce)

lemma auth_terminal:
  assumes inv: "auth_inv n st" and fresh: "Terminal_Called \<notin> set (history st)"
  shows "post (auth_inv n) (auth_fault n)
           (call_terminal default_reject (st\<lparr>index := int n\<rparr>))"
  using assms
  by (auto simp: call_terminal_def default_reject_def record_event_def auth_inv_def undecided_def
      expected_transport_snoc auth_fault_def)

lemma auth_dispatch:
  assumes "auth_pre (length mws) i st"
  shows "post (auth_inv (length mws)) (auth_fault (length mws)) (dispatch mws default_reject i st)"
proof (rule dispatch_rule [where Pre = "auth_pre (length mws)", OF preserved_auth_inv _ _ _ _ _ assms])
  show "auth_fault (length mws) (Error m, record_event (Threw i (Error m)) s)"
    if "auth_inv (length mws) s" for s i m
    using that by (auto simp: auth_fault_def auth_inv_def record_event_def expected_transport_snoc)
  show "auth_fault (length mws) (Error ''next() called multiple times'', st)"
    if "auth_pre (length mws) i st" for i st
    using that by (simp add: auth_fault_def auth_pre_def)
  show "auth_inv (length mws) (st\<lparr>index := int i\<rparr>)"
    if "auth_pre (length mws) i st" "\<not> int i \<le> index st" "i < length mws" for i st
    using that by (auto simp: auth_inv_def auth_pre_def)
  show "auth_pre (length mws) (Suc i) (record_event (Next_Called i) s)"
    if "i < length mws" "auth_inv (length mws) s" for i s
    using that by (auto simp: auth_inv_def auth_pre_def record_event_def expected_transport_snoc)
  show "post (auth_inv (length mws)) (auth_fault (length mws))
          (call_terminal default_reject (st\<lparr>index := int i\<rparr>))"
    if pre: "auth_pre (length mws) i st" and "\<not> int i \<le> index st" "\<not> i < length mws" for i st
  proof -
    have i: "i = length mws" using that by (simp add: auth_pre_def)
    have "Terminal_Called \<notin> set (history st)" using that by (auto simp: auth_pre_def auth_inv_def)
    then show ?thesis using pre unfolding i by (intro auth_terminal) (simp add: auth_pre_def)
  qed
qed

lemma auth_inv_initial:
  "auth_inv n \<lparr>index = - 1, history = [], world = auth_world ctx\<rparr>"
  by (simp add: auth_inv_def auth_world_def undecided_def transport_events_def auth_attempts_def)

text \<open>What the invariant says at the end of \<open>handleAuth\<close>, also with no middleware configured.\<close>

lemma auth_handleAuth:
  "undecided (world (state_of (handleAuth mws ctx))) =
     (decisions (history (state_of (handleAuth mws ctx))) = []) \<and>
   transport_events (trace (world (state_of (handleAuth mws ctx)))) =
     expected_transport (history (state_of (handleAuth mws ctx))) \<and>
   (undecided (world (state_of (handleAuth mws ctx))) \<longrightarrow>
      (\<forall>k. authResult (world (state_of (handleAuth mws ctx))) k = None) \<and>
      auth_attempts (trace (world (state_of (handleAuth mws ctx)))) = [] \<and>
      transport_events (trace (world (state_of (handleAuth mws ctx)))) =
        (if Terminal_Called \<in> set (history (state_of (handleAuth mws ctx)))
         then [Transport_Reject (Some [''publickey''])] else []))"
proof (cases "mws = []")
  case True
  then show ?thesis
    by (simp add: handleAuth_def server_middleware_def call_terminal_def default_reject_def
        state_of_def record_event_def auth_world_def transport_events_def auth_attempts_def
        undecided_def decisions_def expected_transport_def forwarding_def)
next
  case False
  have "post (auth_inv (length mws)) (auth_fault (length mws))
          (dispatch mws default_reject 0 \<lparr>index = - 1, history = [], world = auth_world ctx\<rparr>)"
    by (intro auth_dispatch) (simp add: auth_pre_def auth_inv_initial)
  then have "auth_inv (length mws) (state_of (handleAuth mws ctx))"
    using False
    by (auto simp: handleAuth_def server_middleware_def compose_def state_of_def post_def
        auth_fault_def split: sum.splits)
  then show ?thesis by (auto simp: auth_inv_def)
qed

lemma handleAuth_undecided:
  "undecided (world (state_of (handleAuth mws ctx))) =
     (decisions (history (state_of (handleAuth mws ctx))) = [])"
  using auth_handleAuth [of mws ctx] by blast

lemma handleAuth_transport:
  "transport_events (trace (world (state_of (handleAuth mws ctx)))) =
     expected_transport (history (state_of (handleAuth mws ctx)))"
  using auth_handleAuth [of mws ctx] by blast

lemma handleAuth_quiet:
  assumes "decisions (history (state_of (handleAuth mws ctx))) = []"
  shows "(\<forall>k. authResult (world (state_of (handleAuth mws ctx))) k = None) \<and>
         auth_attempts (trace (world (state_of (handleAuth mws ctx)))) = [] \<and>
         transport_events (trace (world (state_of (handleAuth mws ctx)))) =
           (if Terminal_Called \<in> set (history (state_of (handleAuth mws ctx)))
            then [Transport_Reject (Some [''publickey''])] else [])"
  using auth_handleAuth [of mws ctx] assms by blast

text \<open>The error path of the listener adds to the trace and changes nothing else.\<close>

lemma on_authentication_state:
  "history (on_authentication l mws ctx) = history (state_of (handleAuth mws ctx)) \<and>
   accepted (world (on_authentication l mws ctx)) = accepted (world (state_of (handleAuth mws ctx))) \<and>
   rejected (world (on_authentication l mws ctx)) = rejected (world (state_of (handleAuth mws ctx))) \<and>
   authResult (world (on_authentication l mws ctx)) = authResult (world (state_of (handleAuth mws ctx))) \<and>
   auth_attempts (trace (world (on_authentication l mws ctx))) =
     auth_attempts (trace (world (state_of (handleAuth mws ctx)))) \<and>
   set (trace (world (state_of (handleAuth mws ctx)))) \<subseteq> set (trace (world (on_authentication l mws ctx)))"
  by (cases "handleAuth mws ctx")
     (cases l; auto simp: on_authentication_def state_of_def on_world_def auth_attempts_def)+

subsection \<open>The default reject\<close>

text \<open>
  Claim C4, as stated, fails: a middleware that throws before it has called \<open>accept\<close>,
  \<open>reject\<close> or \<open>next\<close> ends the dispatch with no decision made by a middleware, the
  terminal continuation has not run, and the one reject the transport receives comes
  from the error path and names no method. (The server has a listener of \<open>error\<close>
  here; without one the transport receives nothing.)
\<close>

theorem default_reject_counterexample:
  "decisions (history (on_authentication Listener_Returns [Custom [Throw ''boom'']] guest)) = [] \<and>
   Terminal_Called \<notin> set (history (on_authentication Listener_Returns [Custom [Throw ''boom'']] guest)) \<and>
   transport_events (trace (world (on_authentication Listener_Returns [Custom [Throw ''boom'']] guest))) =
     [Transport_Reject None]"
  by (simp add: on_authentication_def handleAuth_def server_middleware_def compose_def
      dispatch.simps record_event_def on_world_def auth_world_def guest_def
      transport_events_def decisions_def)

text \<open>
  A middleware that returns without a decision and without calling \<open>next\<close> ends the
  dispatch normally, and the transport receives nothing.
\<close>

lemma short_circuit_without_decision:
  "handleAuth [Custom []] guest =
     Inr \<lparr>index = 0, history = [], world = auth_world guest\<rparr> \<and>
   transport_events (trace (world (on_authentication l [Custom []] guest))) = []"
  by (simp add: on_authentication_def handleAuth_def server_middleware_def compose_def
      dispatch.simps auth_world_def guest_def transport_events_def)

text \<open>
  Claim C4, amended. In an authentication dispatch in which no middleware calls \<open>accept\<close>
  or \<open>reject\<close> and which reaches the terminal continuation, the transport receives,
  up to the end of \<open>handleAuth\<close>, one reject naming \<open>publickey\<close> and nothing else. The
  listener adds its own reject only if \<open>handleAuth\<close> ends with an exception, and then
  only when \<open>emit("error", err)\<close> returns.
\<close>

theorem default_reject_when_reached:
  "decisions (history (state_of (handleAuth mws ctx))) = [] \<Longrightarrow>
   Terminal_Called \<in> set (history (state_of (handleAuth mws ctx))) \<Longrightarrow>
   transport_events (trace (world (state_of (handleAuth mws ctx)))) =
     [Transport_Reject (Some [''publickey''])] \<and>
   transport_events (trace (world (on_authentication l mws ctx))) =
     Transport_Reject (Some [''publickey'']) #
       (case handleAuth mws ctx of
          Inl f \<Rightarrow> if emit_returns l then [Transport_Reject None] else []
        | Inr st \<Rightarrow> [])"
proof -
  assume d: "decisions (history (state_of (handleAuth mws ctx))) = []"
    and t: "Terminal_Called \<in> set (history (state_of (handleAuth mws ctx)))"
  have first: "transport_events (trace (world (state_of (handleAuth mws ctx)))) =
     [Transport_Reject (Some [''publickey''])]"
    using handleAuth_quiet [OF d] t by simp
  then have "transport_events (trace (world (on_authentication l mws ctx))) =
     Transport_Reject (Some [''publickey'']) #
       (case handleAuth mws ctx of
          Inl f \<Rightarrow> if emit_returns l then [Transport_Reject None] else []
        | Inr st \<Rightarrow> [])"
    by (cases "handleAuth mws ctx"; cases l)
       (auto simp: on_authentication_def state_of_def on_world_def transport_events_def)
  then show ?thesis using first by simp
qed

theorem default_reject_when_reached_witness:
  "decisions (history (state_of
     (handleAuth [Logging all_callbacks, Custom [Emit ''seen'', Await_Next]] guest))) = [] \<and>
   Terminal_Called \<in> set (history (state_of
     (handleAuth [Logging all_callbacks, Custom [Emit ''seen'', Await_Next]] guest))) \<and>
   transport_events (trace (world (state_of
     (handleAuth [Logging all_callbacks, Custom [Emit ''seen'', Await_Next]] guest)))) =
     [Transport_Reject (Some [''publickey''])] \<and>
   trace (world (on_authentication No_Listener
     [Logging all_callbacks, Custom [Emit ''seen'', Await_Next]] guest)) =
     [Emitted ''seen'', Transport_Reject (Some [''publickey''])] \<and>
   decisions (history (state_of (handleAuth [Custom [Await_Next, Throw ''late'']] guest))) = [] \<and>
   Terminal_Called \<in> set (history (state_of
     (handleAuth [Custom [Await_Next, Throw ''late'']] guest))) \<and>
   transport_events (trace (world (on_authentication Listener_Returns
     [Custom [Await_Next, Throw ''late'']] guest))) =
     [Transport_Reject (Some [''publickey'']), Transport_Reject None] \<and>
   transport_events (trace (world (on_authentication No_Listener
     [Custom [Await_Next, Throw ''late'']] guest))) =
     [Transport_Reject (Some [''publickey''])]"
proof -
  have run: "handleAuth [Logging all_callbacks, Custom [Emit ''seen'', Await_Next]] guest =
    Inr \<lparr>index = 2, history = [Next_Called 0, Next_Called 1, Terminal_Called],
         world = (auth_world guest)\<lparr>
           ctx_accept := Some (Logging_Accept 0 Auth_Accept),
           ctx_reject := Some (Logging_Reject 0 Auth_Reject),
           trace := [Emitted ''seen'', Transport_Reject (Some [''publickey''])]\<rparr>\<rparr>"
    by (simp add: handleAuth_def server_middleware_def compose_def dispatch.simps logging_def
        record_event_def on_world_def wrap_decisions_def report_attempt_def emit_def
        call_terminal_def default_reject_def auth_world_def guest_def all_callbacks_def)
  have d: "decisions (history (state_of
     (handleAuth [Logging all_callbacks, Custom [Emit ''seen'', Await_Next]] guest))) = []"
    by (simp add: run state_of_def decisions_def)
  have t: "Terminal_Called \<in> set (history (state_of
     (handleAuth [Logging all_callbacks, Custom [Emit ''seen'', Await_Next]] guest)))"
    by (simp add: run state_of_def)
  have late: "handleAuth [Custom [Await_Next, Throw ''late'']] guest =
    Inl (Error ''late'',
         \<lparr>index = 1, history = [Next_Called 0, Terminal_Called, Threw 0 (Error ''late'')],
          world = (auth_world guest)\<lparr>trace := [Transport_Reject (Some [''publickey''])]\<rparr>\<rparr>)"
    by (simp add: handleAuth_def server_middleware_def compose_def dispatch.simps
        record_event_def on_world_def call_terminal_def default_reject_def auth_world_def
        guest_def)
  have d': "decisions (history (state_of
     (handleAuth [Custom [Await_Next, Throw ''late'']] guest))) = []"
    by (simp add: late state_of_def decisions_def)
  have t': "Terminal_Called \<in> set (history (state_of
     (handleAuth [Custom [Await_Next, Throw ''late'']] guest)))"
    by (simp add: late state_of_def)
  show ?thesis
    using d t d' t' default_reject_when_reached [OF d t, of No_Listener]
      default_reject_when_reached [OF d' t', of Listener_Returns]
      default_reject_when_reached [OF d' t', of No_Listener]
    by (simp add: on_authentication_def run late)
qed

text \<open>
  Claim C10. The default reject goes to the transport directly: it leaves \<open>accepted\<close>,
  \<open>rejected\<close> and every \<open>authResult\<close> as they are. So after an authentication in which
  no middleware has called \<open>accept\<close> or \<open>reject\<close>, both flags are still false, no
  \<open>logging\<close> activation has a result and \<open>onAuthAttempt\<close> has not been called, also when
  the terminal continuation has run and the transport has received the default reject.
\<close>

theorem default_reject_not_observed:
  "(case default_reject w of
      Inl f \<Rightarrow> False
    | Inr w' \<Rightarrow> accepted w' = accepted w \<and> rejected w' = rejected w \<and>
                authResult w' = authResult w) \<and>
   (decisions (history (on_authentication l mws ctx)) = [] \<longrightarrow>
      \<not> accepted (world (on_authentication l mws ctx)) \<and>
      \<not> rejected (world (on_authentication l mws ctx)) \<and>
      (\<forall>k. authResult (world (on_authentication l mws ctx)) k = None) \<and>
      auth_attempts (trace (world (on_authentication l mws ctx))) = [] \<and>
      (Terminal_Called \<in> set (history (on_authentication l mws ctx)) \<longrightarrow>
         Transport_Reject (Some [''publickey'']) \<in> set (trace (world (on_authentication l mws ctx)))))"
proof -
  have "\<not> accepted (world (on_authentication l mws ctx)) \<and>
      \<not> rejected (world (on_authentication l mws ctx)) \<and>
      (\<forall>k. authResult (world (on_authentication l mws ctx)) k = None) \<and>
      auth_attempts (trace (world (on_authentication l mws ctx))) = [] \<and>
      (Terminal_Called \<in> set (history (on_authentication l mws ctx)) \<longrightarrow>
         Transport_Reject (Some [''publickey'']) \<in> set (trace (world (on_authentication l mws ctx))))"
    if d: "decisions (history (on_authentication l mws ctx)) = []"
  proof -
    have d': "decisions (history (state_of (handleAuth mws ctx))) = []"
      using d on_authentication_state [of l mws ctx] by simp
    have u: "undecided (world (state_of (handleAuth mws ctx)))"
      using handleAuth_undecided [of mws ctx] d' by simp
    have "Transport_Reject (Some [''publickey'']) \<in> set (trace (world (state_of (handleAuth mws ctx))))"
      if "Terminal_Called \<in> set (history (state_of (handleAuth mws ctx)))"
    proof -
      have "Transport_Reject (Some [''publickey''])
              \<in> set (transport_events (trace (world (state_of (handleAuth mws ctx)))))"
        using handleAuth_quiet [OF d'] that by simp
      then show ?thesis by (simp add: transport_events_def)
    qed
    then show ?thesis
      using handleAuth_quiet [OF d'] u on_authentication_state [of l mws ctx]
      by (auto simp: undecided_def)
  qed
  then show ?thesis by (simp add: default_reject_def)
qed

theorem default_reject_not_observed_witness:
  "decisions (history (on_authentication No_Listener [Logging all_callbacks] guest)) = [] \<and>
   Terminal_Called \<in> set (history (on_authentication No_Listener [Logging all_callbacks] guest)) \<and>
   auth_attempts (trace (world (on_authentication No_Listener [Logging all_callbacks] guest))) = [] \<and>
   trace (world (on_authentication No_Listener [Logging all_callbacks] guest)) =
     [Transport_Reject (Some [''publickey''])] \<and>
   \<not> rejected (world (on_authentication No_Listener [Logging all_callbacks] guest))"
proof -
  have run: "on_authentication No_Listener [Logging all_callbacks] guest =
    \<lparr>index = 1, history = [Next_Called 0, Terminal_Called],
     world = (auth_world guest)\<lparr>
       ctx_accept := Some (Logging_Accept 0 Auth_Accept),
       ctx_reject := Some (Logging_Reject 0 Auth_Reject),
       trace := [Transport_Reject (Some [''publickey''])]\<rparr>\<rparr>"
    by (simp add: on_authentication_def handleAuth_def server_middleware_def compose_def
        dispatch.simps logging_def record_event_def on_world_def wrap_decisions_def
        report_attempt_def call_terminal_def default_reject_def auth_world_def guest_def
        all_callbacks_def)
  have d: "decisions (history (on_authentication No_Listener [Logging all_callbacks] guest)) = []"
    by (simp add: run decisions_def)
  show ?thesis
    using d default_reject_not_observed [of "auth_world guest" No_Listener "[Logging all_callbacks]" guest]
    by (simp add: run)
qed

subsection \<open>Repeated decisions\<close>

text \<open>
  Claim C7, as stated, fails: a middleware that calls \<open>reject\<close> twice makes the transport
  receive two rejects.
\<close>

theorem decision_once_counterexample:
  "transport_events (trace (world (on_authentication No_Listener
      [Custom [Call_Reject (Some [''publickey'']), Call_Reject (Some [''publickey'']), Await_Next]]
      guest))) =
     [Transport_Reject (Some [''publickey'']), Transport_Reject (Some [''publickey''])]"
  by (simp add: on_authentication_def handleAuth_def server_middleware_def compose_def
      dispatch.simps record_event_def on_world_def reject_call_def call_terminal_def
      default_reject_def auth_world_def guest_def transport_events_def)

text \<open>
  Claim C7, amended. Every call of the context's \<open>accept\<close> or \<open>reject\<close>, whatever has
  been decided before and however often \<open>logging\<close> has wrapped it, sets its flag and
  forwards one decision to the transport. So in every authentication dispatch the
  transport receives one decision for each call a middleware makes, in the order of the
  calls. Only the default reject of the terminal continuation is guarded: once a decision
  is recorded it does nothing.
\<close>

theorem decisions_always_forwarded:
  "trace (invoke_accept a w) = trace w @ [Transport_Accept] \<and>
   accepted (invoke_accept a w) \<and>
   trace (invoke_reject r ms w) = trace w @ [Transport_Reject ms] \<and>
   rejected (invoke_reject r ms w) \<and>
   (\<not> undecided w \<longrightarrow> default_reject w = Inr w) \<and>
   transport_events (trace (world (state_of (handleAuth mws ctx)))) =
     expected_transport (history (state_of (handleAuth mws ctx)))"
  using handleAuth_transport [of mws ctx]
  by (simp add: invoke_accept_effect invoke_reject_effect default_reject_def undecided_def)

theorem decisions_always_forwarded_witness:
  "history (state_of (handleAuth
      [Logging all_callbacks,
       Custom [Call_Reject None, Call_Accept, Call_Reject (Some [''password'']), Await_Next]]
      guest)) =
     [Next_Called 0, Reject_Called None, Accept_Called, Reject_Called (Some [''password'']),
      Next_Called 1, Terminal_Called] \<and>
   transport_events (trace (world (state_of (handleAuth
      [Logging all_callbacks,
       Custom [Call_Reject None, Call_Accept, Call_Reject (Some [''password'']), Await_Next]]
      guest)))) =
     [Transport_Reject None, Transport_Accept, Transport_Reject (Some [''password''])] \<and>
   \<not> undecided (invoke_reject Auth_Reject None (auth_world guest)) \<and>
   default_reject (invoke_reject Auth_Reject None (auth_world guest)) =
     Inr (invoke_reject Auth_Reject None (auth_world guest))"
proof -
  have h: "history (state_of (handleAuth
      [Logging all_callbacks,
       Custom [Call_Reject None, Call_Accept, Call_Reject (Some [''password'']), Await_Next]]
      guest)) =
     [Next_Called 0, Reject_Called None, Accept_Called, Reject_Called (Some [''password'']),
      Next_Called 1, Terminal_Called]"
    by (simp add: handleAuth_def server_middleware_def compose_def dispatch.simps logging_def
        record_event_def on_world_def wrap_decisions_def report_attempt_def accept_call_def
        reject_call_def call_terminal_def default_reject_def auth_world_def guest_def
        all_callbacks_def state_of_def)
  show ?thesis
    using decisions_always_forwarded [of Auth_Accept
        "invoke_reject Auth_Reject None (auth_world guest)" Auth_Reject None
        "[Logging all_callbacks,
          Custom [Call_Reject None, Call_Accept, Call_Reject (Some [''password'']), Await_Next]]"
        guest]
    by (simp add: h undecided_def expected_transport_def forwarding_def)
qed

subsection \<open>Exec requests\<close>

text \<open>A shell that is granted a channel enters the shell.\<close>

lemma shell_enters_shell:
  "\<not> (requirePty \<and> ptyInfo s = None) \<Longrightarrow>
   filter enters_shell (log (on_shell l requirePty mws user has_reject True create_error s)) \<noteq>
     filter enters_shell (log s)"
  by (simp add: on_shell_def)

text \<open>
  Claim C8. The exec listener accepts the request and, on the channel that \<open>accept\<close>
  returns, exits with status 1 and ends the stream, at once and in that order. When the
  transport returns no channel there is nothing to close. In both cases the listener
  leaves \<open>ptyInfo\<close> alone, runs no middleware and creates no session: no shell is
  entered.
\<close>

theorem exec_accepted_then_closed:
  "log (on_exec stream_returned command s) =
     log s @ Exec_Accepted #
       (if stream_returned then [Exec_Log (exec_message command), Channel_Exit 1, Channel_End]
        else []) \<and>
   ptyInfo (on_exec stream_returned command s) = ptyInfo s \<and>
   filter enters_shell (log (on_exec stream_returned command s)) = filter enters_shell (log s)"
  by (simp add: on_exec_def)

theorem exec_accepted_then_closed_witness:
  "log (on_exec True (Some ''infocmp -x'') \<lparr>ptyInfo = None, log = []\<rparr>) =
     [Exec_Accepted,
      Exec_Log ''[SSH] exec request not supported (command: infocmp -x)'',
      Channel_Exit 1, Channel_End] \<and>
   filter enters_shell (log (on_exec True (Some ''infocmp -x'') \<lparr>ptyInfo = None, log = []\<rparr>)) = []"
  using exec_accepted_then_closed [of True "Some ''infocmp -x''" "\<lparr>ptyInfo = None, log = []\<rparr>"]
  by (simp add: exec_message_def)

section \<open>The examples of the tests and of the documentation\<close>

text \<open>\<open>logging\<close> in front of \<open>devMode\<close> reports one accepted attempt.\<close>

lemma logging_devMode:
  "trace (world (on_authentication No_Listener [Logging all_callbacks, DevMode] guest)) =
     [Transport_Accept, Auth_Attempt True]"
  by (simp add: on_authentication_def handleAuth_def server_middleware_def compose_def
      dispatch.simps logging_def devMode_def record_event_def on_world_def wrap_decisions_def
      report_attempt_def accept_call_def call_terminal_def default_reject_def auth_world_def
      guest_def all_callbacks_def)

text \<open>\<open>publicKey\<close> accepts a key it is given and rejects another, naming \<open>publickey\<close>.\<close>

lemma publicKey_accepts:
  "trace (world (on_authentication No_Listener
      [Logging all_callbacks,
       PublicKey [\<lparr>key_type = ''ssh-ed25519'', key = ''AAAA'', comment = None\<rparr>]] key_holder)) =
     [Transport_Accept, Auth_Attempt True]"
  by (simp add: on_authentication_def handleAuth_def server_middleware_def compose_def
      dispatch.simps logging_def publicKey_def matchesKey_def record_event_def on_world_def
      wrap_decisions_def report_attempt_def accept_call_def call_terminal_def default_reject_def
      auth_world_def key_holder_def all_callbacks_def)

lemma publicKey_rejects:
  "trace (world (on_authentication No_Listener
      [Logging all_callbacks,
       PublicKey [\<lparr>key_type = ''ssh-ed25519'', key = ''DIFFERENT'', comment = None\<rparr>]]
      key_holder)) =
     [Transport_Reject (Some [''publickey'']), Auth_Attempt False]"
  by (simp add: on_authentication_def handleAuth_def server_middleware_def compose_def
      dispatch.simps logging_def publicKey_def matchesKey_def record_event_def on_world_def
      wrap_decisions_def report_attempt_def reject_call_def call_terminal_def default_reject_def
      auth_world_def key_holder_def all_callbacks_def)

text \<open>With no middleware configured, an attempt is rejected by default.\<close>

lemma no_middleware_rejects:
  "trace (world (on_authentication l [] ctx)) = [Transport_Reject (Some [''publickey''])]"
  by (simp add: on_authentication_def handleAuth_def server_middleware_def call_terminal_def
      default_reject_def record_event_def auth_world_def)

text \<open>A shell requested after a pty is granted with the size of that pty.\<close>

lemma pty_then_shell:
  "log (on_shell l True [] user has_reject True None
          (on_pty (Some ''xterm-256color'') (Num 120) (Num 40) True \<lparr>ptyInfo = None, log = []\<rparr>)) =
     [Pty_Accepted, Shell_Accepted, Middleware_Ran [],
      Session_Created \<lparr>term_type = ''xterm-256color'', width = Num 120, height = Num 40\<rparr>]"
  by (simp add: on_shell_def on_pty_def session_dispatch_def server_middleware_def
      call_terminal_def record_event_def session_world_def)

text \<open>Without a pty, a server that requires one rejects the shell.\<close>

lemma shell_without_pty:
  "log (on_shell l True mws user True stream_returned create_error \<lparr>ptyInfo = None, log = []\<rparr>) =
     [Shell_Rejected]"
  by (simp add: on_shell_def)


end
